theory Spec2Isabelle
  imports Complex_Main "HOL-Library.AList"
begin

section \<open>Python values, exceptions and slices\<close>

text \<open>
  The embedding follows \<^verbatim>\<open>src/ambianic/pipeline/ai/image_detection.py\<close>, class
  \<^verbatim>\<open>TFImageDetection\<close>. Python's unbounded integers are \<open>int\<close>. Floats (tensor
  scores, box coordinates, scale factors) are idealised as \<open>real\<close>: comparisons of
  floats that are not NaN agree with the comparison of the reals they denote; rounding of
  a quotient is not modelled. Every \<^verbatim>\<open>raise\<close>, failed \<^verbatim>\<open>assert\<close> and failed
  lookup is the \<open>Inl\<close> branch of a sum.
\<close>

text \<open>
  A dimension of \<^verbatim>\<open>desired_size\<close> is a dynamically typed number: a native
  \<^verbatim>\<open>int\<close> or \<^verbatim>\<open>float\<close>, or a numpy scalar (an instance of
  \<^verbatim>\<open>np.generic\<close>).
\<close>

datatype pyval = PyInt int | PyFloat real | NpInt int | NpFloat real

datatype pytype = TInt | TFloat | TNpInt | TNpFloat

fun type_of :: "pyval \<Rightarrow> pytype" where
  "type_of (PyInt _) = TInt"
| "type_of (PyFloat _) = TFloat"
| "type_of (NpInt _) = TNpInt"
| "type_of (NpFloat _) = TNpFloat"

text \<open>
  \<open>RuntimeError\<close> carries what the f-string of \<^verbatim>\<open>thumbnail\<close> prints: the
  \<^verbatim>\<open>desired_size\<close> pair, \<^verbatim>\<open>type(w)\<close>, \<^verbatim>\<open>type(h)\<close> and the
  exception that was caught.
\<close>

datatype error =
    AssertionError
  | AttributeError
  | KeyError int
  | IndexError
  | FileNotFoundError
  | ZeroDivisionError
  | TypeError
  | ValueError
  | RuntimeError "pyval \<times> pyval" pytype pytype error

text \<open>\<^verbatim>\<open>int(x)\<close> on a float truncates towards zero.\<close>

definition py_int :: "real \<Rightarrow> int" where
  "py_int r = (if 0 \<le> r then \<lfloor>r\<rfloor> else \<lceil>r\<rceil>)"

text \<open>
  \<^verbatim>\<open>a[:n]\<close> and \<^verbatim>\<open>a[s:]\<close> for a Python integer bound: a negative bound counts
  from the end, and a bound outside the sequence is cut to it (\<open>nat\<close> of a negative
  number is \<open>0\<close>, \<open>take\<close> and \<open>drop\<close> saturate at the length).
\<close>

definition slice_to :: "'a list \<Rightarrow> int \<Rightarrow> 'a list" where
  "slice_to a n = (if 0 \<le> n then take (nat n) a else take (nat (int (length a) + n)) a)"

definition slice_from :: "'a list \<Rightarrow> int \<Rightarrow> 'a list" where
  "slice_from a s = (if 0 \<le> s then drop (nat s) a else drop (nat (int (length a) + s)) a)"

section \<open>Label map loader\<close>

text \<open>
  Characters are code points below 256. \<open>is_space\<close> is what \<^verbatim>\<open>\s\<close> matches in a
  \<^verbatim>\<open>str\<close> pattern and what \<^verbatim>\<open>str.strip()\<close> removes (tab, LF, VT, FF, CR,
  FS, GS, RS, US, space, NEL, NBSP); \<open>is_digit\<close> is \<^verbatim>\<open>\d\<close> (in this range, 0 to 9);
  \<^verbatim>\<open>.\<close> matches every character but the line feed.
\<close>

definition is_space :: "char \<Rightarrow> bool" where
  "is_space c = (let n = (of_char c :: nat) in
     (9 \<le> n \<and> n \<le> 13) \<or> (28 \<le> n \<and> n \<le> 32) \<or> n = 133 \<or> n = 160)"

definition is_digit :: "char \<Rightarrow> bool" where
  "is_digit c = (let n = (of_char c :: nat) in 48 \<le> n \<and> n \<le> 57)"

definition not_newline :: "char \<Rightarrow> bool" where
  "not_newline c = ((of_char c :: nat) \<noteq> 10)"

text \<open>
  \<^verbatim>\<open>re.compile(r'\s*(\d+)(.+)').match(line)\<close>, with its \<^verbatim>\<open>groups()\<close> when it
  matches and \<open>None\<close> when it does not. The match is anchored at the start of the line
  only. \<^verbatim>\<open>\s*\<close> has to take all the leading white space, because \<^verbatim>\<open>\d+\<close> cannot
  start on a space. \<^verbatim>\<open>\d+\<close> is greedy and takes the whole run of digits when a
  character other than the line feed follows, which \<^verbatim>\<open>.+\<close> then takes up to the line
  feed; when nothing or a line feed follows, the matcher backtracks and \<^verbatim>\<open>\d+\<close>
  gives its last digit to \<^verbatim>\<open>.+\<close>, which needs a run of two digits at least.
\<close>

definition match_line :: "string \<Rightarrow> (string \<times> string) option" where
  "match_line line =
     (let s = dropWhile is_space line;
          ds = takeWhile is_digit s;
          r = dropWhile is_digit s;
          t = takeWhile not_newline r
      in if ds = [] then None
         else if t \<noteq> [] then Some (ds, t)
         else if 2 \<le> length ds then Some (butlast ds, [last ds])
         else None)"

text \<open>\<^verbatim>\<open>int(num)\<close> on a string of decimal digits.\<close>

definition digit_val :: "char \<Rightarrow> int" where
  "digit_val c = int (of_char c) - 48"

definition int_of_digits :: "string \<Rightarrow> int" where
  "int_of_digits ds = foldl (\<lambda>a c. 10 * a + digit_val c) 0 ds"

text \<open>\<^verbatim>\<open>text.strip()\<close>.\<close>

definition strip :: "string \<Rightarrow> string" where
  "strip s = rev (dropWhile is_space (rev (dropWhile is_space s)))"

text \<open>
  The label map is a Python \<^verbatim>\<open>dict\<close>: an association list with one entry for each
  key, in insertion order. \<open>AList.update\<close> is the dict's store (a present key keeps its
  place and gets the new value, a new key goes to the end), \<open>map_of\<close> its lookup and
  \<open>length\<close> its \<^verbatim>\<open>len\<close>.
\<close>

type_synonym labels = "(int \<times> string) list"

text \<open>
  The dict comprehension over the generator of \<^verbatim>\<open>p.match(line).groups()\<close>: the
  lines are consumed in order, and the first line without a match raises
  \<^verbatim>\<open>AttributeError\<close> (\<^verbatim>\<open>None\<close> has no \<^verbatim>\<open>groups\<close>).
\<close>

fun labels_of_lines :: "string list \<Rightarrow> labels \<Rightarrow> error + labels" where
  "labels_of_lines [] d = Inr d"
| "labels_of_lines (line # rest) d =
     (case match_line line of
        None \<Rightarrow> Inl AttributeError
      | Some (num, text) \<Rightarrow>
          labels_of_lines rest (AList.update (int_of_digits num) (strip text) d))"

text \<open>
  \<^verbatim>\<open>load_labels\<close>. The file system is a map from a path to the file's lines as
  \<^verbatim>\<open>readlines()\<close> returns them. \<^verbatim>\<open>assert label_path\<close> fails on \<^verbatim>\<open>None\<close> and
  on the empty string.
\<close>

definition load_labels :: "(string \<rightharpoonup> string list) \<Rightarrow> string option \<Rightarrow> error + labels" where
  "load_labels fs label_path =
     (case label_path of
        None \<Rightarrow> Inl AssertionError
      | Some p \<Rightarrow>
          if p = [] then Inl AssertionError
          else (case fs p of
                  None \<Rightarrow> Inl FileNotFoundError
                | Some lines \<Rightarrow> labels_of_lines lines []))"

text \<open>
  The line format in the words of the specification, \<^verbatim>\<open><integer><whitespace><text>\<close>:
  a run of digits, then white space, then text, up to the line's end. It is not part of
  the program; the loader is compared with it.
\<close>

definition spec_line_format :: "string \<Rightarrow> bool" where
  "spec_line_format line =
     (let body = takeWhile not_newline line;
          ds = takeWhile is_digit body;
          r = dropWhile is_digit body;
          ws = takeWhile is_space r;
          t = dropWhile is_space r
      in ds \<noteq> [] \<and> ws \<noteq> [] \<and> t \<noteq> [])"

section \<open>Ranking and back-projection\<close>

text \<open>
  The four output tensors of the engine, without the leading batch dimension of size one:
  \<^verbatim>\<open>boxes[0]\<close> (rows \<^verbatim>\<open>(ymin, xmin, ymax, xmax)\<close>, so \<^verbatim>\<open>box[0]\<close> to
  \<^verbatim>\<open>box[3]\<close> are the components of the tuple in order), \<^verbatim>\<open>label_codes[0]\<close>,
  \<^verbatim>\<open>scores[0]\<close> and \<^verbatim>\<open>num[0]\<close>.
\<close>

type_synonym box = "real \<times> real \<times> real \<times> real"

record outputs =
  boxes :: "box list"
  label_codes :: "real list"
  scores :: "real list"
  num :: real

type_synonym detection = "string \<times> real \<times> (real \<times> real \<times> real \<times> real)"

text \<open>
  \<^verbatim>\<open>np.argsort\<close>: the indices that sort the array in ascending order. Equal scores
  keep their index order here; the library's default sort fixes no order for them.
\<close>

definition argsort :: "real list \<Rightarrow> nat list" where
  "argsort a = sort_key (\<lambda>i. a ! i) [0..<length a]"

text \<open>
  \<^verbatim>\<open>np.argsort(scores[0, :detections_count])[-1*tfe.top_k:][::-1]\<close>
\<close>

definition top_k_indices :: "real list \<Rightarrow> int \<Rightarrow> int \<Rightarrow> nat list" where
  "top_k_indices sc detections_count top_k =
     rev (slice_from (argsort (slice_to sc detections_count)) (- 1 * top_k))"

text \<open>
  The \<^verbatim>\<open>for i in top_k_indices\<close> loop, with \<^verbatim>\<open>inference_result\<close> as accumulator.
  An index outside a tensor raises \<^verbatim>\<open>IndexError\<close>; \<^verbatim>\<open>self._labels[li]\<close> on a
  missing key raises \<^verbatim>\<open>KeyError\<close>. The quotients are numpy scalars: at a factor of
  zero numpy gives an infinity or NaN where HOL's \<open>/\<close> gives \<open>0\<close>, so the model is the
  code's only at nonzero factors.
\<close>

fun rank_loop ::
  "labels \<Rightarrow> real \<Rightarrow> real \<Rightarrow> real \<Rightarrow> outputs \<Rightarrow> nat list \<Rightarrow> detection list \<Rightarrow> error + detection list"
where
  "rank_loop L thr w_factor h_factor out [] inference_result = Inr inference_result"
| "rank_loop L thr w_factor h_factor out (i # rest) inference_result =
     (if length (scores out) \<le> i then Inl IndexError
      else
        let confidence = scores out ! i in
        if confidence \<ge> thr then
          (if length (label_codes out) \<le> i then Inl IndexError
           else
             let li = py_int (label_codes out ! i) in
             if li < int (length L) then
               (case map_of L li of
                  None \<Rightarrow> Inl (KeyError li)
                | Some label \<Rightarrow>
                    if length (boxes out) \<le> i then Inl IndexError
                    else
                      (case boxes out ! i of (b0, b1, b2, b3) \<Rightarrow>
                         let x0 = b1 / w_factor;
                             y0 = b0 / h_factor;
                             x1 = min (b3 / w_factor) 1;
                             y1 = min (b2 / h_factor) 1
                         in rank_loop L thr w_factor h_factor out rest
                              (inference_result @ [(label, confidence, (x0, y0, x1, y1))])))
             else rank_loop L thr w_factor h_factor out rest inference_result)
        else rank_loop L thr w_factor h_factor out rest inference_result)"

text \<open>
  The part of \<^verbatim>\<open>detect\<close> after the tensors are read: from
  \<^verbatim>\<open>detections_count = int(num[0])\<close> to the result list.
\<close>

definition rank :: "labels \<Rightarrow> real \<Rightarrow> int \<Rightarrow> real \<Rightarrow> real \<Rightarrow> outputs \<Rightarrow> error + detection list" where
  "rank L thr top_k w_factor h_factor out =
     (let detections_count = py_int (num out)
      in rank_loop L thr w_factor h_factor out
           (top_k_indices (scores out) detections_count top_k) [])"

section \<open>Images, the object store and the imaging library\<close>

text \<open>
  An image is a \<^verbatim>\<open>PIL.Image\<close> in RGB: its \<^verbatim>\<open>size\<close> and the sample at each
  column \<open>x\<close> and row \<open>y\<close>. Images are objects with identity, and
  \<^verbatim>\<open>Image.thumbnail\<close> changes one in place, so they live in a store: \<open>objs\<close> maps a
  reference to the object's current value, and the references below \<open>fresh\<close> are the
  ones in use. The store also holds the rest of the state that \<^verbatim>\<open>detect\<close> reads and
  writes: the detector's attribute \<^verbatim>\<open>last_time\<close>, and the monotonic clock, where
  \<open>clock n\<close> is what call number \<open>n\<close> of \<^verbatim>\<open>time.monotonic()\<close> returns and \<open>reads\<close>
  counts the calls made so far.
\<close>

type_synonym pixel = "nat \<times> nat \<times> nat"

definition black :: pixel where
  "black = (0, 0, 0)"

record image =
  width :: nat
  height :: nat
  pix :: "nat \<Rightarrow> nat \<Rightarrow> pixel"

record store =
  objs :: "nat \<Rightarrow> image"
  fresh :: nat
  last_time :: real
  clock :: "nat \<Rightarrow> real"
  reads :: nat

definition alloc :: "store \<Rightarrow> image \<Rightarrow> store \<times> nat" where
  "alloc st im = (st\<lparr>objs := (objs st)(fresh st := im), fresh := Suc (fresh st)\<rparr>, fresh st)"

text \<open>\<^verbatim>\<open>time.monotonic()\<close>: the next reading of the clock.\<close>

definition monotonic :: "store \<Rightarrow> real \<times> store" where
  "monotonic st = (clock st (reads st), st\<lparr>reads := Suc (reads st)\<rparr>)"

text \<open>\<^verbatim>\<open>image.copy()\<close>: a new object with the same contents.\<close>

definition copy_image :: "store \<Rightarrow> nat \<Rightarrow> store \<times> nat" where
  "copy_image st r = alloc st (objs st r)"

text \<open>
  What this repository does not fix about the imaging library is a parameter: how
  \<^verbatim>\<open>Image.thumbnail\<close> rounds a scaled side, the samples a resize computes, and what
  \<^verbatim>\<open>Image.thumbnail\<close> does with a size that is not a pair of positive native
  integers (or with an image that has an empty side).
\<close>

datatype rounding = Truncate | Nearest

record backend =
  rounds :: rounding
  resample :: "image \<Rightarrow> nat \<times> nat \<Rightarrow> nat \<Rightarrow> nat \<Rightarrow> pixel"
  foreign :: "image \<Rightarrow> pyval \<times> pyval \<Rightarrow> error + image"

text \<open>
  \<^verbatim>\<open>round(p / m)\<close> for integers \<open>p\<close> and \<open>m > 0\<close>: the nearest integer, a half
  going to the even neighbour.
\<close>

definition round_half_even :: "int \<Rightarrow> int \<Rightarrow> int" where
  "round_half_even p m =
     (let q = p div m; r = p mod m
      in if 2 * r < m then q else if m < 2 * r then q + 1 else if even q then q else q + 1)"

text \<open>
  The integer the library takes for a quotient \<open>p / m\<close> of positive integers: \<^verbatim>\<open>int(p / m)\<close>
  or \<^verbatim>\<open>round(p / m)\<close> (for sides below \<open>2 ^ 26\<close> the float quotient rounds as the
  exact one does).
\<close>

fun rounded :: "rounding \<Rightarrow> int \<Rightarrow> int \<Rightarrow> int" where
  "rounded Truncate p m = p div m"
| "rounded Nearest p m = round_half_even p m"

text \<open>
  The size rule of \<^verbatim>\<open>Image.thumbnail\<close>:
  \<^verbatim>\<open>
  x, y = self.size
  if x > size[0]: y = int(max(y * size[0] / x, 1)); x = int(size[0])
  if y > size[1]: x = int(max(x * size[1] / y, 1)); y = int(size[1])
  \<close>
  in the library's releases before 7.0, and the same with
  \<^verbatim>\<open>max(round(y * size[0] / x), 1)\<close> and \<^verbatim>\<open>max(round(x * size[1] / y), 1)\<close>
  in release 7.0 (later releases pick the floor or the ceiling of the scaled side by its
  aspect error, which is not modelled). Here \<open>sz\<close> is \<^verbatim>\<open>self.size\<close> and \<open>target\<close>
  the argument \<^verbatim>\<open>size\<close>.
\<close>

definition thumbnail_size :: "rounding \<Rightarrow> int \<times> int \<Rightarrow> int \<times> int \<Rightarrow> int \<times> int" where
  "thumbnail_size rd sz target =
     (case sz of (x, y) \<Rightarrow> case target of (s0, s1) \<Rightarrow>
        let (x, y) = (if x > s0 then (s0, max (rounded rd (y * s0) x) 1) else (x, y))
        in if y > s1 then (max (rounded rd (x * s1) y) 1, s1) else (x, y))"

text \<open>
  \<^verbatim>\<open>Image.thumbnail(size)\<close>, as the new value of the image it is called on: nothing
  changes when the computed size is the image's size, else the image is resized to it.
\<close>

definition pil_thumbnail :: "backend \<Rightarrow> image \<Rightarrow> pyval \<times> pyval \<Rightarrow> error + image" where
  "pil_thumbnail B im target =
     (case target of
        (PyInt s0, PyInt s1) \<Rightarrow>
          if 0 < s0 \<and> 0 < s1 \<and> 0 < width im \<and> 0 < height im then
            (case thumbnail_size (rounds B) (int (width im), int (height im)) (s0, s1) of (x, y) \<Rightarrow>
               if (x, y) = (int (width im), int (height im)) then Inr im
               else Inr \<lparr>width = nat x, height = nat y, pix = resample B im (nat x, nat y)\<rparr>)
          else foreign B im target
      | _ \<Rightarrow> foreign B im target)"

text \<open>
  \<^verbatim>\<open>ImageOps.expand(image, border)\<close> with a border \<^verbatim>\<open>(left, top, right, bottom)\<close>
  and the default fill \<open>0\<close>: a new image of the grown size, filled with the colour, with
  the image pasted at \<^verbatim>\<open>(left, top)\<close>. \<^verbatim>\<open>Image.new\<close> rejects a negative side.
  The border is \<open>(lft, tp, rgt, btm)\<close> below.
\<close>

definition expand :: "image \<Rightarrow> int \<times> int \<times> int \<times> int \<Rightarrow> error + image" where
  "expand im border =
     (case border of (lft, tp, rgt, btm) \<Rightarrow>
        let w = lft + int (width im) + rgt;
            h = tp + int (height im) + btm
        in if w < 0 \<or> h < 0 then Inl ValueError
           else Inr \<lparr>width = nat w, height = nat h,
                     pix = (\<lambda>x y.
                       if lft \<le> int x \<and> int x < lft + int (width im) \<and>
                          tp \<le> int y \<and> int y < tp + int (height im)
                       then pix im (nat (int x - lft)) (nat (int y - tp))
                       else black)\<rparr>)"

section \<open>The thumbnailer and the padder\<close>

fun is_np_generic :: "pyval \<Rightarrow> bool" where
  "is_np_generic (NpInt _) = True"
| "is_np_generic (NpFloat _) = True"
| "is_np_generic _ = False"

text \<open>\<^verbatim>\<open>v.item()\<close>: the native value of a numpy scalar; a native number has no such attribute.\<close>

fun item :: "pyval \<Rightarrow> error + pyval" where
  "item (NpInt n) = Inr (PyInt n)"
| "item (NpFloat r) = Inr (PyFloat r)"
| "item _ = Inl AttributeError"

fun int_of :: "pyval \<Rightarrow> pyval" where
  "int_of (PyInt n) = PyInt n"
| "int_of (PyFloat r) = PyInt (py_int r)"
| "int_of (NpInt n) = PyInt n"
| "int_of (NpFloat r) = PyInt (py_int r)"

text \<open>
  The conversion at the head of the \<^verbatim>\<open>try\<close> block of \<^verbatim>\<open>thumbnail\<close>:
  \<^verbatim>\<open>
  if isinstance(w, np.generic):
      w = w.item(); w = int(w); h = h.item(); h = int(h)
  \<close>
  \<open>Inr\<close> is the pair handed to \<^verbatim>\<open>thumb.thumbnail\<close>; \<open>Inl\<close> is an exception, with
  the types \<^verbatim>\<open>w\<close> and \<^verbatim>\<open>h\<close> have when it is raised.
\<close>

definition native_size :: "pyval \<times> pyval \<Rightarrow> (pytype \<times> pytype \<times> error) + (pyval \<times> pyval)" where
  "native_size desired_size =
     (case desired_size of (w, h) \<Rightarrow>
        if is_np_generic w then
          (case item w of
             Inl e \<Rightarrow> Inl (type_of w, type_of h, e)
           | Inr w1 \<Rightarrow>
               let w2 = int_of w1 in
               (case item h of
                  Inl e \<Rightarrow> Inl (type_of w2, type_of h, e)
                | Inr h1 \<Rightarrow> Inr (w2, int_of h1)))
        else Inr (w, h))"

text \<open>
  \<^verbatim>\<open>thumbnail(image, desired_size)\<close>, with \<open>img\<close> for the argument
  \<^verbatim>\<open>image\<close>. \<open>None\<close> is an argument left at its default,
  on which the \<^verbatim>\<open>assert\<close> fails. The result is the store and the reference of the
  thumbnail. Every exception of the \<^verbatim>\<open>try\<close> block is logged and raised again as
  \<^verbatim>\<open>RuntimeError\<close>.
\<close>

definition thumbnail ::
  "backend \<Rightarrow> store \<Rightarrow> nat option \<Rightarrow> (pyval \<times> pyval) option \<Rightarrow> error + (store \<times> nat)"
where
  "thumbnail B st img desired_size =
     (case img of
        None \<Rightarrow> Inl AssertionError
      | Some r \<Rightarrow>
          (case desired_size of
             None \<Rightarrow> Inl AssertionError
           | Some (w, h) \<Rightarrow>
               (case copy_image st r of (st1, thumb) \<Rightarrow>
                  (case native_size (w, h) of
                     Inl (tw, th, e) \<Rightarrow> Inl (RuntimeError (w, h) tw th e)
                   | Inr (w', h') \<Rightarrow>
                       (case pil_thumbnail B (objs st1 thumb) (w', h') of
                          Inl e \<Rightarrow> Inl (RuntimeError (w, h) (type_of w') (type_of h') e)
                        | Inr im \<Rightarrow> Inr (st1\<lparr>objs := (objs st1)(thumb := im)\<rparr>, thumb))))))"

text \<open>
  The integer a size component denotes in \<^verbatim>\<open>desired_size[0] - thumb.size[0]\<close>; a
  float leaves a float border, which \<^verbatim>\<open>Image.new\<close> rejects with \<^verbatim>\<open>TypeError\<close>.
\<close>

fun int_val :: "pyval \<Rightarrow> int option" where
  "int_val (PyInt n) = Some n"
| "int_val (NpInt n) = Some n"
| "int_val _ = None"

text \<open>\<^verbatim>\<open>resize(image, desired_size)\<close>, the padder.\<close>

definition resize ::
  "store \<Rightarrow> nat option \<Rightarrow> (pyval \<times> pyval) option \<Rightarrow> error + (store \<times> nat)"
where
  "resize st img desired_size =
     (case img of
        None \<Rightarrow> Inl AssertionError
      | Some r \<Rightarrow>
          (case desired_size of
             None \<Rightarrow> Inl AssertionError
           | Some (d0, d1) \<Rightarrow>
               (case copy_image st r of (st1, thumb) \<Rightarrow>
                  (case (int_val d0, int_val d1) of
                     (Some s0, Some s1) \<Rightarrow>
                       let delta_w = s0 - int (width (objs st1 thumb));
                           delta_h = s1 - int (height (objs st1 thumb));
                           padding = (0, 0, delta_w, delta_h)
                       in (case expand (objs st1 thumb) padding of
                             Inl e \<Rightarrow> Inl e
                           | Inr new \<Rightarrow>
                               (case alloc st1 new of (st2, new_im) \<Rightarrow>
                                  if (int (width new), int (height new)) = (s0, s1)
                                  then Inr (st2, new_im)
                                  else Inl AssertionError))
                   | _ \<Rightarrow> Inl TypeError))))"

section \<open>The detection pipeline\<close>

text \<open>
  The inference engine is a collaborator outside this file. Of it the pipeline reads the
  input tensor's shape (\<^verbatim>\<open>NxHxWxC\<close>), the threshold and \<^verbatim>\<open>top_k\<close>; \<open>invoke\<close> is
  \<^verbatim>\<open>set_tensor\<close>, \<^verbatim>\<open>infer\<close> and the four \<^verbatim>\<open>get_tensor\<close> calls in one: the
  output tensors for an input image (for a model that is not quantized the samples are
  scaled to floats first, which \<open>invoke\<close> includes).
\<close>

record engine =
  input_shape :: "pyval \<times> pyval \<times> pyval \<times> pyval"
  is_quantized :: bool
  confidence_threshold :: real
  top_k :: int
  invoke :: "image \<Rightarrow> outputs"

text \<open>
  \<^verbatim>\<open>w_factor = thumbnail.size[0] / new_im.size[0]\<close> and
  \<^verbatim>\<open>h_factor = thumbnail.size[1] / new_im.size[1]\<close>: divisions of native integers.
\<close>

definition scale_factors :: "image \<Rightarrow> image \<Rightarrow> error + (real \<times> real)" where
  "scale_factors thumb new_im =
     (if width new_im = 0 then Inl ZeroDivisionError
      else if height new_im = 0 then Inl ZeroDivisionError
      else Inr (real (width thumb) / real (width new_im),
                real (height thumb) / real (height new_im)))"

text \<open>
  The first half of \<^verbatim>\<open>detect\<close>, up to the scale factors: the store, the references
  of the thumbnail and of the padded image, and the two factors.
  \<open>h\<close> and \<open>w\<close> are the source's \<^verbatim>\<open>height\<close> and \<^verbatim>\<open>width\<close>, the entries
  1 and 2 of the shape.
\<close>

definition detect_geometry ::
  "backend \<Rightarrow> engine \<Rightarrow> store \<Rightarrow> nat option \<Rightarrow> error + (store \<times> nat \<times> nat \<times> real \<times> real)"
where
  "detect_geometry B tfe st img =
     (case img of
        None \<Rightarrow> Inl AssertionError
      | Some r \<Rightarrow>
          (case input_shape tfe of (n, h, w, c) \<Rightarrow>
             (case thumbnail B st (Some r) (Some (w, h)) of
                Inl e \<Rightarrow> Inl e
              | Inr (st1, thumb) \<Rightarrow>
                  (case resize st1 (Some thumb) (Some (w, h)) of
                     Inl e \<Rightarrow> Inl e
                   | Inr (st2, new_im) \<Rightarrow>
                       (case scale_factors (objs st2 thumb) (objs st2 new_im) of
                          Inl e \<Rightarrow> Inl e
                        | Inr (w_factor, h_factor) \<Rightarrow>
                            Inr (st2, thumb, new_im, w_factor, h_factor))))))"

text \<open>
  \<^verbatim>\<open>_log_stats(start_time)\<close>:
  \<^verbatim>\<open>
  assert start_time
  end_time = time.monotonic()
  inf_time = (end_time - start_time) * 1000
  fps = 1.0/(end_time - self.last_time)
  ...
  self.last_time = end_time
  \<close>
  The assertion fails on a start time of zero, and the float division raises
  \<^verbatim>\<open>ZeroDivisionError\<close> when the clock reads what \<^verbatim>\<open>last_time\<close> holds. The
  pipeline name and the two figures go to the log only.
\<close>

definition log_stats :: "store \<Rightarrow> real \<Rightarrow> error + store" where
  "log_stats st start_time =
     (if start_time = 0 then Inl AssertionError
      else
        (case monotonic st of (end_time, st1) \<Rightarrow>
           if end_time - last_time st1 = 0 then Inl ZeroDivisionError
           else Inr (st1\<lparr>last_time := end_time\<rparr>)))"

text \<open>
  \<^verbatim>\<open>detect(image)\<close>: the store and the returned triple
  \<^verbatim>\<open>(thumbnail, new_im, inference_result)\<close>. The clock is read after
  \<^verbatim>\<open>assert image\<close>; the engine runs, then \<^verbatim>\<open>_log_stats\<close>, then the output
  tensors are read and ranked.
\<close>

definition detect ::
  "backend \<Rightarrow> engine \<Rightarrow> labels \<Rightarrow> store \<Rightarrow> nat option
     \<Rightarrow> error + (store \<times> nat \<times> nat \<times> detection list)"
where
  "detect B tfe L st img =
     (case img of
        None \<Rightarrow> Inl AssertionError
      | Some r \<Rightarrow>
          (case monotonic st of (start_time, st0) \<Rightarrow>
             (case detect_geometry B tfe st0 (Some r) of
                Inl e \<Rightarrow> Inl e
              | Inr (st2, thumb, new_im, w_factor, h_factor) \<Rightarrow>
                  let out = invoke tfe (objs st2 new_im) in
                  (case log_stats st2 start_time of
                     Inl e \<Rightarrow> Inl e
                   | Inr st3 \<Rightarrow>
                       (case rank L (confidence_threshold tfe) (top_k tfe) w_factor h_factor
                               out of
                          Inl e \<Rightarrow> Inl e
                        | Inr inference_result \<Rightarrow>
                            Inr (st3, thumb, new_im, inference_result))))))"

section \<open>Sample inputs\<close>

text \<open>
  Inputs on which the theorems below are run: an imaging library that rounds to the
  nearest integer, resamples to black and rejects what it is not known to accept, a store
  whose object \<open>0\<close> is an image of 600 by 400 and whose clock reads 1, 2, 3 and so on after
  a \<^verbatim>\<open>last_time\<close> of 0, and an engine with a 300 by 300 input tensor (its shape a numpy array), a
  threshold of one half, and the given \<^verbatim>\<open>top_k\<close> and output tensors.
\<close>

definition sample_backend :: backend where
  "sample_backend =
     \<lparr>rounds = Nearest, resample = (\<lambda>im sz x y. black), foreign = (\<lambda>im sz. Inl TypeError)\<rparr>"

definition sample_image :: image where
  "sample_image = \<lparr>width = 600, height = 400, pix = (\<lambda>x y. (x mod 256, y mod 256, 7))\<rparr>"

definition sample_store :: store where
  "sample_store =
     \<lparr>objs = (\<lambda>r. sample_image), fresh = 1, last_time = 0, clock = (\<lambda>n. 1 + real n),
      reads = 0\<rparr>"

definition sample_engine :: "int \<Rightarrow> outputs \<Rightarrow> engine" where
  "sample_engine k out =
     \<lparr>input_shape = (NpInt 1, NpInt 300, NpInt 300, NpInt 3), is_quantized = True,
      confidence_threshold = 1 / 2, top_k = k, invoke = (\<lambda>im. out)\<rparr>"

text \<open>A file system with one file, \<^verbatim>\<open>labels.txt\<close>, of the given lines.\<close>

definition one_file :: "string list \<Rightarrow> (string \<rightharpoonup> string list)" where
  "one_file lines = (\<lambda>p. if p = ''labels.txt'' then Some lines else None)"

text \<open>What \<^verbatim>\<open>detect\<close> returns, without the store.\<close>

definition returned ::
  "error + (store \<times> nat \<times> nat \<times> detection list) \<Rightarrow> error + (nat \<times> nat \<times> detection list)"
where
  "returned res = (case res of Inl e \<Rightarrow> Inl e | Inr (st, t, p, ds) \<Rightarrow> Inr (t, p, ds))"

section \<open>The ranking loop\<close>

text \<open>
  When the loop returns, its result is the accumulator followed by one detection for each
  index that passes the two tests, in the order of the indices.
\<close>

lemma rank_loop_Inr:
  "rank_loop L thr wfac hfac out is acc = Inr r \<Longrightarrow>
   r = acc @ map (\<lambda>i. (the (map_of L (py_int (label_codes out ! i))), scores out ! i,
                 (case boxes out ! i of (b0, b1, b2, b3) \<Rightarrow>
                    (b1 / wfac, b0 / hfac, min (b3 / wfac) 1, min (b2 / hfac) 1))))
            (filter (\<lambda>i. thr \<le> scores out ! i \<and> py_int (label_codes out ! i) < int (length L)) is)"
proof (induction "is" arbitrary: acc)
  case Nil
  then show ?case by simp
next
  case (Cons i rest)
  show ?case
  proof (cases "thr \<le> scores out ! i \<and> py_int (label_codes out ! i) < int (length L)")
    case False
    with Cons.prems have "rank_loop L thr wfac hfac out rest acc = Inr r"
      by (auto simp: Let_def split: if_splits)
    from Cons.IH[OF this] False show ?thesis by auto
  next
    case True
    with Cons.prems obtain label where
      lab: "map_of L (py_int (label_codes out ! i)) = Some label"
      by (auto simp: Let_def split: if_splits option.splits)
    obtain b0 b1 b2 b3 where bx: "boxes out ! i = (b0, b1, b2, b3)"
      by (cases "boxes out ! i") auto
    from Cons.prems True lab bx have
      "rank_loop L thr wfac hfac out rest
         (acc @ [(label, scores out ! i, (b1 / wfac, b0 / hfac, min (b3 / wfac) 1, min (b2 / hfac) 1))]) = Inr r"
      by (auto simp: Let_def split: if_splits)
    from Cons.IH[OF this] True lab bx show ?thesis by simp
  qed
qed

text \<open>
  The loop returns when every index is inside the tensors and every label looked up is a
  key.
\<close>

lemma rank_loop_total:
  "\<forall>i\<in>set is. i < length (scores out) \<and> i < length (label_codes out) \<and> i < length (boxes out) \<Longrightarrow>
   \<forall>i\<in>set is. thr \<le> scores out ! i \<longrightarrow> py_int (label_codes out ! i) < int (length L) \<longrightarrow>
       map_of L (py_int (label_codes out ! i)) \<noteq> None \<Longrightarrow>
   \<exists>r. rank_loop L thr wfac hfac out is acc = Inr r"
proof (induction "is" arbitrary: acc)
  case Nil
  then show ?case by simp
next
  case (Cons i rest)
  have IH: "\<And>acc. \<exists>r. rank_loop L thr wfac hfac out rest acc = Inr r"
    using Cons by simp
  have b: "i < length (scores out)" "i < length (label_codes out)" "i < length (boxes out)"
    using Cons.prems(1) by simp_all
  show ?case
  proof (cases "thr \<le> scores out ! i \<and> py_int (label_codes out ! i) < int (length L)")
    case False
    then show ?thesis using b IH[of acc] by (auto simp: Let_def)
  next
    case True
    with Cons.prems(2) obtain label where
      lab: "map_of L (py_int (label_codes out ! i)) = Some label" by auto
    obtain b0 b1 b2 b3 where bx: "boxes out ! i = (b0, b1, b2, b3)"
      by (cases "boxes out ! i") auto
    show ?thesis using True b lab bx
        IH[of "acc @ [(label, scores out ! i, (b1 / wfac, b0 / hfac, min (b3 / wfac) 1, min (b2 / hfac) 1))]"]
      by (simp add: Let_def)
  qed
qed

section \<open>The indices of the best scores\<close>

lemma set_argsort: "set (argsort a) = {0..<length a}"
  by (simp add: argsort_def)

lemma length_argsort: "length (argsort a) = length a"
  by (simp add: argsort_def)

lemma distinct_argsort: "distinct (argsort a)"
  by (simp add: argsort_def)

lemma sorted_argsort: "sorted (map (\<lambda>i. a ! i) (argsort a))"
  by (simp add: argsort_def)

lemma set_slice_from: "set (slice_from xs s) \<subseteq> set xs"
  unfolding slice_from_def by (simp add: set_drop_subset)

lemma length_slice_to: "length (slice_to a n) \<le> length a"
  unfolding slice_to_def by (cases "0 \<le> n") simp_all

lemma nth_slice_to: "i < length (slice_to a n) \<Longrightarrow> slice_to a n ! i = a ! i"
  unfolding slice_to_def by (cases "0 \<le> n") simp_all

lemma in_set_slice_fromD: "x \<in> set (slice_from xs s) \<Longrightarrow> x \<in> set xs"
  unfolding slice_from_def by (cases "0 \<le> s") (simp_all add: in_set_dropD)

lemma top_k_indices_bound:
  assumes "i \<in> set (top_k_indices sc n k)"
  shows "i < length (slice_to sc n)"
proof -
  from assms have "i \<in> set (slice_from (argsort (slice_to sc n)) (- 1 * k))"
    unfolding top_k_indices_def by (simp only: set_rev)
  then have "i \<in> set (argsort (slice_to sc n))"
    by (rule in_set_slice_fromD)
  then show ?thesis by (simp only: set_argsort atLeastLessThan_iff)
qed

lemma top_k_indices_lt: "i \<in> set (top_k_indices sc n k) \<Longrightarrow> i < length sc"
  using top_k_indices_bound[of i sc n k] length_slice_to[of sc n] by linarith

lemma distinct_top_k_indices: "distinct (top_k_indices sc n k)"
  unfolding top_k_indices_def slice_from_def by (simp add: distinct_argsort)

lemma length_top_k_indices:
  assumes "0 < k"
  shows "length (top_k_indices sc n k) \<le> nat k"
proof -
  have "length (top_k_indices sc n k) =
          length (argsort (slice_to sc n)) - nat (int (length (argsort (slice_to sc n))) - k)"
    using assms unfolding top_k_indices_def slice_from_def by simp
  also have "\<dots> \<le> nat k" using assms by linarith
  finally show ?thesis .
qed

lemma top_k_indices_zero: "top_k_indices sc n 0 = rev (argsort (slice_to sc n))"
  unfolding top_k_indices_def slice_from_def by simp

lemma top_k_indices_descending:
  "sorted_wrt (\<lambda>a b. a \<ge> b) (map (\<lambda>i. sc ! i) (top_k_indices sc n k))"
proof -
  let ?a = "slice_to sc n"
  let ?idx = "slice_from (argsort ?a) (- 1 * k)"
  have "sorted (map (\<lambda>i. ?a ! i) (argsort ?a))" by (rule sorted_argsort)
  then have "sorted (drop m (map (\<lambda>i. ?a ! i) (argsort ?a)))" for m
    by (rule sorted_wrt_drop)
  then have "sorted (map (\<lambda>i. ?a ! i) (drop m (argsort ?a)))" for m
    by (simp only: drop_map)
  then have s1: "sorted (map (\<lambda>i. ?a ! i) ?idx)"
    unfolding slice_from_def by (cases "0 \<le> - 1 * k") simp_all
  have eq: "map (\<lambda>i. ?a ! i) ?idx = map (\<lambda>i. sc ! i) ?idx"
  proof (rule map_cong[OF refl])
    fix i assume "i \<in> set ?idx"
    then have "i \<in> set (argsort ?a)" by (rule in_set_slice_fromD)
    then have "i < length ?a" by (simp only: set_argsort atLeastLessThan_iff)
    then show "?a ! i = sc ! i" by (rule nth_slice_to)
  qed
  from s1 have "sorted (map (\<lambda>i. sc ! i) ?idx)" unfolding eq .
  then have "sorted_wrt (\<lambda>a b. a \<ge> b) (rev (map (\<lambda>i. sc ! i) ?idx))"
    by (simp only: sorted_wrt_rev)
  then show ?thesis unfolding top_k_indices_def by (simp only: rev_map)
qed

lemma sorted_wrt_map_filter:
  "sorted_wrt R (map f xs) \<Longrightarrow> sorted_wrt R (map f (filter P xs))"
  by (induction xs) (auto simp: sorted_wrt_map)

section \<open>The ranker\<close>

lemma rank_Inr:
  assumes "rank L thr k wfac hfac out = Inr ds"
  shows "ds = map (\<lambda>i. (the (map_of L (py_int (label_codes out ! i))), scores out ! i,
                 (case boxes out ! i of (b0, b1, b2, b3) \<Rightarrow>
                    (b1 / wfac, b0 / hfac, min (b3 / wfac) 1, min (b2 / hfac) 1))))
            (filter (\<lambda>i. thr \<le> scores out ! i \<and> py_int (label_codes out ! i) < int (length L))
               (top_k_indices (scores out) (py_int (num out)) k))"
proof -
  from assms have
    "rank_loop L thr wfac hfac out (top_k_indices (scores out) (py_int (num out)) k) [] = Inr ds"
    unfolding rank_def by (simp only: Let_def)
  from rank_loop_Inr[OF this] show ?thesis by (simp only: append_Nil)
qed

lemma rank_confidences:
  assumes "rank L thr k wfac hfac out = Inr ds"
  shows "map (fst \<circ> snd) ds =
           map (\<lambda>i. scores out ! i)
             (filter (\<lambda>i. thr \<le> scores out ! i \<and> py_int (label_codes out ! i) < int (length L))
                (top_k_indices (scores out) (py_int (num out)) k))"
  unfolding rank_Inr[OF assms] by (simp add: comp_def)

lemma rank_length:
  assumes "rank L thr k wfac hfac out = Inr ds" and "0 < k"
  shows "length ds \<le> nat k"
proof -
  have "length ds = length (map (fst \<circ> snd) ds)" by simp
  also have "\<dots> \<le> length (top_k_indices (scores out) (py_int (num out)) k)"
    unfolding rank_confidences[OF assms(1)] by simp
  also have "\<dots> \<le> nat k" using assms(2) by (rule length_top_k_indices)
  finally show ?thesis .
qed

lemma rank_descending:
  assumes "rank L thr k wfac hfac out = Inr ds"
  shows "sorted_wrt (\<lambda>a b. a \<ge> b) (map (fst \<circ> snd) ds)"
  unfolding rank_confidences[OF assms]
  by (rule sorted_wrt_map_filter) (rule top_k_indices_descending)

lemma rank_threshold:
  assumes "rank L thr k wfac hfac out = Inr ds" and "d \<in> set ds"
  shows "thr \<le> fst (snd d)"
proof -
  from assms(2) have "fst (snd d) \<in> set (map (fst \<circ> snd) ds)" by force
  then show ?thesis unfolding rank_confidences[OF assms(1)] by auto
qed

lemma rank_inclusive:
  assumes "rank L thr k wfac hfac out = Inr ds"
    and "i \<in> set (top_k_indices (scores out) (py_int (num out)) k)"
    and "scores out ! i = thr"
    and "py_int (label_codes out ! i) < int (length L)"
  shows "\<exists>d\<in>set ds. fst (snd d) = thr"
proof -
  have "thr \<in> set (map (fst \<circ> snd) ds)"
    unfolding rank_confidences[OF assms(1)] using assms(2,3,4) by force
  then show ?thesis by auto
qed

text \<open>
  With a positive \<^verbatim>\<open>top_k\<close>, a list that \<^verbatim>\<open>detect\<close> returns has at most
  \<^verbatim>\<open>top_k\<close> entries, in descending order of confidence, each at or above the
  threshold; and a candidate among the best \<^verbatim>\<open>top_k\<close> whose score is the threshold
  itself and whose label code is below the size of the label map is in the list.
\<close>

lemma detect_rank:
  assumes "detect B tfe L st img = Inr (st', t, p, ds)"
  shows "rank L (confidence_threshold tfe) (top_k tfe)
           (real (width (objs st' t)) / real (width (objs st' p)))
           (real (height (objs st' t)) / real (height (objs st' p)))
           (invoke tfe (objs st' p)) = Inr ds"
  using assms
  unfolding detect_def detect_geometry_def scale_factors_def log_stats_def monotonic_def
  by (auto simp: Let_def split: option.splits sum.splits prod.splits if_splits)

lemma detect_top_k_positive:
  assumes "detect B tfe L st img = Inr (st', t, p, ds)" and "0 < top_k tfe"
  shows "length ds \<le> nat (top_k tfe)"
    and "sorted_wrt (\<lambda>a b. a \<ge> b) (map (fst \<circ> snd) ds)"
    and "\<forall>d\<in>set ds. confidence_threshold tfe \<le> fst (snd d)"
  using rank_length[OF detect_rank[OF assms(1)] assms(2)]
    rank_descending[OF detect_rank[OF assms(1)]]
    rank_threshold[OF detect_rank[OF assms(1)]]
  by blast+


section \<open>Claims about the ranker\<close>

lemmas sample_defs =
  returned_def detect_def log_stats_def monotonic_def detect_geometry_def sample_engine_def thumbnail_def copy_image_def
  alloc_def native_size_def sample_store_def sample_image_def pil_thumbnail_def
  thumbnail_size_def round_half_even_def sample_backend_def resize_def expand_def scale_factors_def

lemmas rank_defs =
  rank_def top_k_indices_def slice_from_def slice_to_def argsort_def py_int_def

text \<open>
  C1. The claim: for every inference output and every configured \<^verbatim>\<open>top_k\<close> and
  threshold, the list \<^verbatim>\<open>detect\<close> returns has at most \<^verbatim>\<open>top_k\<close> entries, is in
  descending order of confidence, has no entry below the threshold, and includes a
  candidate whose confidence is the threshold itself. The code misses \<^verbatim>\<open>top_k = 0\<close>:
  \<^verbatim>\<open>indices_of_sorted_scores[-1*tfe.top_k:]\<close> is then \<^verbatim>\<open>[0:]\<close>, the whole array.
  On the sample image, with \<^verbatim>\<open>top_k = 0\<close> and two candidates above the threshold,
  \<^verbatim>\<open>detect\<close> returns two detections, where the claim (and the docstring, ``list of
  top_k detections'') allows none.
\<close>

theorem detect_top_k_zero_returns_all:
  "returned (detect sample_backend
     (sample_engine 0
        \<lparr>boxes = [(0, 0, 1, 1), (0, 0, 1, 1)], label_codes = [0, 0],
         scores = [9 / 10, 8 / 10], num = 2\<rparr>)
     [(0, ''person'')] sample_store (Some 0)) =
   Inr (1, 3, [(''person'', 9 / 10, (0, 0, 1, 1)), (''person'', 8 / 10, (0, 0, 1, 1))])"
  by (simp add: sample_defs rank_defs)

text \<open>
  C2. The claim: for every label map, not assumed dense, a candidate whose label code is
  not a key of the map is dropped without a lookup error, and a candidate whose code is a
  key is kept. The code tests \<^verbatim>\<open>li < len(self._labels)\<close>, the number of keys, and then
  reads \<^verbatim>\<open>self._labels[li]\<close>. With the map \<open>{0: person, 2: car}\<close>, a candidate above
  the threshold with code \<open>1\<close> (below the length \<open>2\<close>, not a key) makes \<^verbatim>\<open>detect\<close>
  raise \<^verbatim>\<open>KeyError\<close>, and one with code \<open>2\<close> (a key, not below the length) is
  dropped.
\<close>

theorem detect_sparse_label_map:
  "returned (detect sample_backend
     (sample_engine 3 \<lparr>boxes = [(0, 0, 1, 1)], label_codes = [1], scores = [9 / 10], num = 1\<rparr>)
     [(0, ''person''), (2, ''car'')] sample_store (Some 0)) = Inl (KeyError 1)
   \<and>
   returned (detect sample_backend
     (sample_engine 3 \<lparr>boxes = [(0, 0, 1, 1)], label_codes = [2], scores = [9 / 10], num = 1\<rparr>)
     [(0, ''person''), (2, ''car'')] sample_store (Some 0)) = Inr (1, 3, [])"
  by (simp add: sample_defs rank_defs)

text \<open>
  C3. For every raw box \<open>(ymin, xmin, ymax, xmax)\<close> and every pair of scale factors (not
  zero, where the quotient of the model is the quotient of the code), the boxes of the
  detections that the ranker returns are, in order, those of the candidates that pass the
  two tests, each as
  \<open>(xmin / w_factor, ymin / h_factor, min (xmax / w_factor) 1, min (ymax / h_factor) 1)\<close>:
  only the upper bound of the last two components is clamped, and nothing is clamped
  from below.
\<close>

theorem back_projection:
  assumes "w_factor \<noteq> 0" and "h_factor \<noteq> 0"
    and "rank L thr k w_factor h_factor out = Inr ds"
  shows "map (snd \<circ> snd) ds =
           map (\<lambda>i. case boxes out ! i of (ymin, xmin, ymax, xmax) \<Rightarrow>
                  (xmin / w_factor, ymin / h_factor,
                   min (xmax / w_factor) 1, min (ymax / h_factor) 1))
             (filter (\<lambda>i. thr \<le> scores out ! i \<and> py_int (label_codes out ! i) < int (length L))
                (top_k_indices (scores out) (py_int (num out)) k))"
  unfolding rank_Inr[OF assms(3)] by (simp add: comp_def)

theorem back_projection_witness:
  "(1 :: real) \<noteq> 0 \<and> (2 / 3 :: real) \<noteq> 0 \<and>
   rank [(0, ''person'')] (1 / 2) 3 1 (2 / 3)
     \<lparr>boxes = [(1 / 10, 1 / 5, 2 / 5, 3 / 5), (- 1 / 10, - 1 / 5, 9 / 10, 1)],
      label_codes = [0, 0], scores = [9 / 10, 4 / 5], num = 2\<rparr> =
     Inr [(''person'', 9 / 10, (1 / 5, 3 / 20, 3 / 5, 3 / 5)),
          (''person'', 4 / 5, (- 1 / 5, - 3 / 20, 1, 1))] \<and>
   map (snd \<circ> snd)
     [(''person'', 9 / 10, (1 / 5, 3 / 20, 3 / 5, 3 / 5 :: real)),
      (''person'', 4 / 5 :: real, (- 1 / 5, - 3 / 20, 1, 1))] =
     [(1 / 5, 3 / 20, 3 / 5, 3 / 5), (- 1 / 5, - 3 / 20, 1, 1 :: real)]"
proof -
  have h1: "(1 :: real) \<noteq> 0" and h2: "(2 / 3 :: real) \<noteq> 0" by simp_all
  have h3: "rank [(0, ''person'')] (1 / 2) 3 1 (2 / 3)
     \<lparr>boxes = [(1 / 10, 1 / 5, 2 / 5, 3 / 5), (- 1 / 10, - 1 / 5, 9 / 10, 1)],
      label_codes = [0, 0], scores = [9 / 10, 4 / 5], num = 2\<rparr> =
     Inr [(''person'', 9 / 10, (1 / 5, 3 / 20, 3 / 5, 3 / 5)),
          (''person'', 4 / 5, (- 1 / 5, - 3 / 20, 1, 1))]"
    by (simp add: rank_defs)
  show ?thesis using h1 h2 h3 back_projection[OF h1 h2 h3] by simp
qed

section \<open>The label map loader\<close>

lemma labels_of_lines_mismatch:
  "\<exists>l\<in>set lines. match_line l = None \<Longrightarrow> labels_of_lines lines d = Inl AttributeError"
proof (induction lines arbitrary: d)
  case Nil
  then show ?case by simp
next
  case (Cons line rest)
  show ?case
  proof (cases "match_line line")
    case None
    then show ?thesis by simp
  next
    case (Some g)
    with Cons.prems have "\<exists>l\<in>set rest. match_line l = None" by auto
    from Cons.IH[OF this] Some show ?thesis by (cases g) simp
  qed
qed

lemma labels_of_lines_total:
  "\<forall>l\<in>set lines. match_line l \<noteq> None \<Longrightarrow> \<exists>m. labels_of_lines lines d = Inr m"
proof (induction lines arbitrary: d)
  case Nil
  then show ?case by simp
next
  case (Cons line rest)
  then obtain nm tx where g: "match_line line = Some (nm, tx)" by auto
  from Cons.prems have "\<forall>l\<in>set rest. match_line l \<noteq> None" by simp
  from Cons.IH[OF this] g show ?case by simp
qed

text \<open>A code that no line carries keeps the binding it had.\<close>

lemma labels_of_lines_other:
  "labels_of_lines lines d = Inr m \<Longrightarrow>
   \<forall>l\<in>set lines. \<forall>nm tx. match_line l = Some (nm, tx) \<longrightarrow> int_of_digits nm \<noteq> c \<Longrightarrow>
   map_of m c = map_of d c"
proof (induction lines arbitrary: d)
  case Nil
  then show ?case by simp
next
  case (Cons line rest)
  from Cons.prems(1) obtain nm tx where g: "match_line line = Some (nm, tx)"
    by (cases "match_line line") auto
  with Cons.prems(1) have
    r: "labels_of_lines rest (AList.update (int_of_digits nm) (strip tx) d) = Inr m" by simp
  from Cons.prems(2) g have ne: "int_of_digits nm \<noteq> c" by simp
  from Cons.prems(2) have
    "\<forall>l\<in>set rest. \<forall>nm tx. match_line l = Some (nm, tx) \<longrightarrow> int_of_digits nm \<noteq> c" by simp
  from Cons.IH[OF r this] ne show ?case by (simp add: update_conv')
qed

text \<open>The last line that carries a code decides its label.\<close>

lemma labels_of_lines_last:
  "labels_of_lines lines d = Inr m \<Longrightarrow> j < length lines \<Longrightarrow>
   match_line (lines ! j) = Some (nm, tx) \<Longrightarrow>
   \<forall>j'. j < j' \<and> j' < length lines \<longrightarrow>
      (\<forall>nm' tx'. match_line (lines ! j') = Some (nm', tx') \<longrightarrow>
         int_of_digits nm' \<noteq> int_of_digits nm) \<Longrightarrow>
   map_of m (int_of_digits nm) = Some (strip tx)"
proof (induction lines arbitrary: d j)
  case Nil
  then show ?case by simp
next
  case (Cons line rest)
  from Cons.prems(1) obtain n0 t0 where g: "match_line line = Some (n0, t0)"
    by (cases "match_line line") auto
  with Cons.prems(1) have
    r: "labels_of_lines rest (AList.update (int_of_digits n0) (strip t0) d) = Inr m" by simp
  show ?case
  proof (cases j)
    case 0
    with Cons.prems(3) g have eq: "n0 = nm" "t0 = tx" by simp_all
    have "\<forall>l\<in>set rest. \<forall>nm' tx'. match_line l = Some (nm', tx') \<longrightarrow>
            int_of_digits nm' \<noteq> int_of_digits nm"
    proof (intro ballI allI impI)
      fix l nm' tx'
      assume "l \<in> set rest" and ml: "match_line l = Some (nm', tx')"
      then obtain i where i: "i < length rest" "rest ! i = l" by (auto simp: in_set_conv_nth)
      with 0 Cons.prems(4)[rule_format, of "Suc i" nm' tx'] ml
      show "int_of_digits nm' \<noteq> int_of_digits nm" by simp
    qed
    from labels_of_lines_other[OF r this] eq show ?thesis by (simp add: update_conv')
  next
    case (Suc j0)
    with Cons.prems(2) have a: "j0 < length rest" by simp
    from Suc Cons.prems(3) have b: "match_line (rest ! j0) = Some (nm, tx)" by simp
    have c: "\<forall>j'. j0 < j' \<and> j' < length rest \<longrightarrow>
      (\<forall>nm' tx'. match_line (rest ! j') = Some (nm', tx') \<longrightarrow>
         int_of_digits nm' \<noteq> int_of_digits nm)"
    proof (intro allI impI)
      fix j' nm' tx'
      assume "j0 < j' \<and> j' < length rest" and "match_line (rest ! j') = Some (nm', tx')"
      with Suc Cons.prems(4)[rule_format, of "Suc j'" nm' tx']
      show "int_of_digits nm' \<noteq> int_of_digits nm" by simp
    qed
    from Cons.IH[OF r a b c] show ?thesis .
  qed
qed

text \<open>
  Every line of the form \<^verbatim>\<open><integer><whitespace><text>\<close> matches the loader's pattern
  (the converse fails: the pattern asks for no white space).
\<close>

lemma digit_not_space: "is_digit c \<Longrightarrow> \<not> is_space c"
  by (auto simp: is_digit_def is_space_def Let_def)

lemma digit_not_newline: "is_digit c \<Longrightarrow> not_newline c"
  by (auto simp: is_digit_def not_newline_def Let_def)

lemma spec_line_matches:
  assumes "spec_line_format line"
  shows "match_line line \<noteq> None"
proof -
  define body where "body = takeWhile not_newline line"
  define rest where "rest = dropWhile not_newline line"
  define r where "r = dropWhile is_digit body"
  have line: "line = body @ rest" unfolding body_def rest_def by simp
  from assms have ds: "takeWhile is_digit body \<noteq> []" and ws: "takeWhile is_space r \<noteq> []"
    unfolding spec_line_format_def body_def r_def by (simp_all add: Let_def)
  from ws obtain c r' where r: "r = c # r'" and c: "is_space c"
    by (cases r) (auto split: if_splits)
  have "c \<in> set r" using r by simp
  then have cb: "c \<in> set body" unfolding r_def by (rule set_dropWhileD)
  from set_takeWhileD[OF cb[unfolded body_def]] have cn: "not_newline c" by simp
  have nd: "\<not> is_digit c" using hd_dropWhile[of is_digit body] r unfolding r_def by simp
  from ds obtain d body' where b: "body = d # body'" and d: "is_digit d"
    by (cases body) (auto split: if_splits)
  have l: "line = d # (body' @ rest)" using line b by simp
  have s: "dropWhile is_space line = line" using l digit_not_space[OF d] by simp
  have dr: "dropWhile is_digit line = r @ rest"
    unfolding r_def line using cb nd by (simp add: dropWhile_append1[of c])
  have tk: "takeWhile is_digit line \<noteq> []" using l d by simp
  have t: "takeWhile not_newline (dropWhile is_digit line) \<noteq> []"
    unfolding dr r using cn by simp
  show ?thesis unfolding match_line_def s using tk t by (simp add: Let_def)
qed

lemmas line_defs =
  match_line_def is_space_def is_digit_def not_newline_def int_of_digits_def digit_val_def
  strip_def spec_line_format_def load_labels_def one_file_def

text \<open>
  C7. The claim: a label resource with a line that does not have the form
  \<^verbatim>\<open><integer><whitespace><text>\<close> makes \<^verbatim>\<open>load_labels\<close> fail with a dedicated
  \<^verbatim>\<open>FormatError\<close>. The loader has no such error. A line \<^verbatim>\<open>7up\<close> is not of that
  form (no white space after the integer), and the loader accepts it and binds \<open>7\<close> to
  \<^verbatim>\<open>up\<close>; an empty line makes it fail, with the \<^verbatim>\<open>AttributeError\<close> of
  \<^verbatim>\<open>None.groups()\<close>.
\<close>

theorem load_labels_no_format_error:
  "\<not> spec_line_format ''7up\<newline>'' \<and>
   load_labels (one_file [''7up\<newline>'']) (Some ''labels.txt'') = Inr [(7, ''up'')] \<and>
   \<not> spec_line_format ''\<newline>'' \<and>
   load_labels (one_file [''0 background\<newline>'', ''\<newline>'']) (Some ''labels.txt'') =
     Inl AttributeError"
  by (simp add: line_defs)

text \<open>
  C7, as amended: a label resource with a line that the pattern \<^verbatim>\<open>\s*(\d+)(.+)\<close> does
  not match at its start makes \<^verbatim>\<open>load_labels\<close> fail with \<^verbatim>\<open>AttributeError\<close>.
\<close>

theorem load_labels_mismatch_raises:
  assumes "p \<noteq> []" and "fs p = Some lines" and "\<exists>l\<in>set lines. match_line l = None"
  shows "load_labels fs (Some p) = Inl AttributeError"
  using assms(1,2) labels_of_lines_mismatch[OF assms(3)] by (simp add: load_labels_def)

theorem load_labels_mismatch_raises_witness:
  "''labels.txt'' \<noteq> [] \<and>
   (one_file [''0 background\<newline>'', ''\<newline>'']) ''labels.txt'' =
      Some [''0 background\<newline>'', ''\<newline>''] \<and>
   match_line ''\<newline>'' = None \<and>
   load_labels (one_file [''0 background\<newline>'', ''\<newline>'']) (Some ''labels.txt'') =
     Inl AttributeError"
proof -
  have h1: "''labels.txt'' \<noteq> []" by simp
  have h2: "(one_file [''0 background\<newline>'', ''\<newline>'']) ''labels.txt'' =
      Some [''0 background\<newline>'', ''\<newline>'']" by (simp add: one_file_def)
  have h3: "\<exists>l\<in>set [''0 background\<newline>'', ''\<newline>'']. match_line l = None"
    by (simp add: line_defs)
  have h0: "match_line ''\<newline>'' = None" by (simp add: line_defs)
  show ?thesis using h0 h1 h2 load_labels_mismatch_raises[where fs = "one_file [''0 background\<newline>'', ''\<newline>'']" and p = "''labels.txt''", OF h1 h2 h3] by simp
qed

text \<open>
  C10. For every label resource whose lines all match the pattern, \<^verbatim>\<open>load_labels\<close>
  succeeds, and a code carried by several lines is bound to the stripped text of the last
  of them: if line \<open>j\<close> carries a code and no later line carries it, the map binds the
  code to the stripped text of line \<open>j\<close>, whatever earlier lines said. A well-formed line is
  one the pattern matches, as every line of the specified form is.
\<close>

theorem load_labels_last_wins:
  assumes "p \<noteq> []" and "fs p = Some lines"
    and "\<forall>l\<in>set lines. match_line l \<noteq> None"
    and "j < length lines" and "match_line (lines ! j) = Some (nm, tx)"
    and "\<forall>j'. j < j' \<and> j' < length lines \<longrightarrow>
           (\<forall>nm' tx'. match_line (lines ! j') = Some (nm', tx') \<longrightarrow>
              int_of_digits nm' \<noteq> int_of_digits nm)"
  shows "\<exists>m. load_labels fs (Some p) = Inr m \<and>
             map_of m (int_of_digits nm) = Some (strip tx)"
proof -
  from labels_of_lines_total[OF assms(3)] obtain m where
    m: "labels_of_lines lines [] = Inr m" by blast
  from labels_of_lines_last[OF m assms(4,5,6)]
  have "map_of m (int_of_digits nm) = Some (strip tx)" .
  with m assms(1,2) show ?thesis by (simp add: load_labels_def)
qed

theorem load_labels_last_wins_witness:
  "''labels.txt'' \<noteq> [] \<and>
   match_line ''1 person\<newline>'' = Some (''1'', '' person'') \<and>
   match_line ''2 car\<newline>'' = Some (''2'', '' car'') \<and>
   match_line ''1   cat  \<newline>'' = Some (''1'', ''   cat  '') \<and>
   (2 :: nat) < length [''1 person\<newline>'', ''2 car\<newline>'', ''1   cat  \<newline>''] \<and>
   (\<exists>m. load_labels (one_file [''1 person\<newline>'', ''2 car\<newline>'', ''1   cat  \<newline>''])
          (Some ''labels.txt'') = Inr m \<and>
        map_of m 1 = Some ''cat'')"
proof -
  let ?lines = "[''1 person\<newline>'', ''2 car\<newline>'', ''1   cat  \<newline>'']"
  have h1: "''labels.txt'' \<noteq> []" by simp
  have h2: "(one_file ?lines) ''labels.txt'' = Some ?lines" by (simp add: one_file_def)
  have h3: "\<forall>l\<in>set ?lines. match_line l \<noteq> None" by (simp add: line_defs)
  have h4: "(2 :: nat) < length ?lines" by simp
  have h5: "match_line (?lines ! 2) = Some (''1'', ''   cat  '')" by (simp add: line_defs)
  have h6: "\<forall>j'. 2 < j' \<and> j' < length ?lines \<longrightarrow>
           (\<forall>nm' tx'. match_line (?lines ! j') = Some (nm', tx') \<longrightarrow>
              int_of_digits nm' \<noteq> int_of_digits ''1'')" by auto
  have e: "int_of_digits ''1'' = 1" "strip ''   cat  '' = ''cat''" by (simp_all add: line_defs)
  have h0: "match_line ''1 person\<newline>'' = Some (''1'', '' person'')"
    "match_line ''2 car\<newline>'' = Some (''2'', '' car'')"
    "match_line ''1   cat  \<newline>'' = Some (''1'', ''   cat  '')"
    by (simp_all add: line_defs)
  show ?thesis using h0 h1 h4 load_labels_last_wins[where fs = "one_file ?lines" and p = "''labels.txt''", OF h1 h2 h3 h4 h5 h6]
    unfolding e by simp
qed

section \<open>The size rule of the thumbnail\<close>

lemma div_bounds:
  fixes a b :: int
  assumes "0 < b"
  shows "a div b * b \<le> a" and "a < (a div b + 1) * b"
proof -
  have e: "a div b * b + a mod b = a" by simp
  have m: "0 \<le> a mod b" "a mod b < b" using assms by simp_all
  from e m show "a div b * b \<le> a" by linarith
  have "(a div b + 1) * b = a div b * b + b" by (simp add: algebra_simps)
  with e m show "a < (a div b + 1) * b" by linarith
qed

lemma round_half_even_bounds:
  fixes p m :: int
  assumes "0 < m"
  shows "2 * (round_half_even p m * m) \<le> 2 * p + m"
    and "2 * p \<le> 2 * (round_half_even p m * m) + m"
    and "p div m \<le> round_half_even p m"
proof -
  define q where "q = p div m"
  define r where "r = p mod m"
  have e: "q * m + r = p" unfolding q_def r_def by simp
  have rb: "0 \<le> r" "r < m" unfolding r_def using assms by simp_all
  have q1: "(q + 1) * m = q * m + m" by (simp add: algebra_simps)
  consider (lo) "2 * r < m" | (hi) "m < 2 * r" | (tie) "2 * r = m" by linarith
  then have "2 * (round_half_even p m * m) \<le> 2 * p + m \<and>
             2 * p \<le> 2 * (round_half_even p m * m) + m \<and> q \<le> round_half_even p m"
  proof cases
    case lo
    then have "round_half_even p m = q" by (simp add: round_half_even_def q_def r_def Let_def)
    with e rb lo show ?thesis by simp
  next
    case hi
    then have "round_half_even p m = q + 1"
      by (simp add: round_half_even_def q_def r_def Let_def)
    with e rb hi q1 show ?thesis by simp
  next
    case tie
    then have "round_half_even p m = q \<or> round_half_even p m = q + 1"
      by (simp add: round_half_even_def q_def r_def Let_def)
    with e rb tie q1 show ?thesis by auto
  qed
  then show "2 * (round_half_even p m * m) \<le> 2 * p + m"
    and "2 * p \<le> 2 * (round_half_even p m * m) + m"
    and "p div m \<le> round_half_even p m" unfolding q_def by simp_all
qed

text \<open>
  What both roundings share: the result is not negative, it is off by less than one, and it
  does not pass an integer bound that the exact quotient stays below.
\<close>

lemma rounded_common:
  fixes p m :: int
  assumes "0 < m" and "0 \<le> p"
  shows "0 \<le> rounded rd p m"
    and "\<bar>p - rounded rd p m * m\<bar> < m"
    and "p < c * m \<Longrightarrow> rounded rd p m \<le> c"
    and "rounded rd p m = 0 \<Longrightarrow> p < m"
proof -
  have d0: "0 \<le> p div m" using assms by (simp add: pos_imp_zdiv_nonneg_iff)
  note db = div_bounds[OF assms(1), of p]
  note rb = round_half_even_bounds[OF assms(1), of p]
  have q1: "(p div m + 1) * m = p div m * m + m" by (simp add: algebra_simps)
  show "0 \<le> rounded rd p m" using d0 rb(3) by (cases rd) simp_all
  show "\<bar>p - rounded rd p m * m\<bar> < m"
    using db q1 rb(1,2) assms(1) by (cases rd) simp_all
  show "rounded rd p m = 0 \<Longrightarrow> p < m"
    using db q1 rb(1,2) assms(1) by (cases rd) simp_all
  show "rounded rd p m \<le> c" if lt: "p < c * m"
  proof (cases rd)
    case Truncate
    from db(1) lt have "p div m * m < c * m" by linarith
    then have "p div m < c" using assms(1) by (simp add: mult_less_cancel_right)
    with Truncate show ?thesis by simp
  next
    case Nearest
    let ?k = "round_half_even p m"
    from rb(1) lt have "2 * (?k * m) < 2 * (c * m) + m" by linarith
    then have "(2 * ?k) * m < (2 * c + 1) * m" by (simp add: algebra_simps)
    then have "2 * ?k < 2 * c + 1" using assms(1) by (simp add: mult_less_cancel_right)
    with Nearest show ?thesis by simp
  qed
qed

text \<open>
  One shrinking step: side \<open>a\<close> is scaled by \<open>n / m\<close>, where the other side goes from
  \<open>m\<close> down to \<open>n\<close>.
\<close>

lemma shrink_step:
  fixes a n m :: int and rd :: rounding
  assumes "0 < a" and "0 < n" and "n < m"
  defines "k \<equiv> rounded rd (a * n) m"
  shows "0 \<le> k" and "k \<le> a" and "\<bar>n * a - max k 1 * m\<bar> < m"
proof -
  have m0: "0 < m" using assms by linarith
  have an: "0 < a * n" using assms by simp
  then have an0: "0 \<le> a * n" by simp
  note qc = rounded_common[OF m0 an0, where rd = rd, folded k_def]
  show k0: "0 \<le> k" by (rule qc(1))
  have "a * n < a * m" using assms by simp
  then show "k \<le> a" unfolding k_def by (rule rounded_common(3)[OF m0 an0])
  show "\<bar>n * a - max k 1 * m\<bar> < m"
  proof (cases "1 \<le> k")
    case True
    then have "max k 1 = k" by simp
    with qc(2) show ?thesis by (simp add: mult.commute[of n a])
  next
    case False
    with k0 have z: "k = 0" by linarith
    from qc(4)[OF z] have "a * n < m" .
    with an z show ?thesis by (simp add: mult.commute[of n a])
  qed
qed

text \<open>The second step after a first one, for each rounding.\<close>

lemma two_steps_truncate:
  fixes x y s0 s1 :: int
  assumes pos: "0 < x" "0 < y" "0 < s0" "0 < s1" and big: "s0 < x"
  defines "q \<equiv> y * s0 div x"
  assumes q: "s1 < q"
  defines "p \<equiv> s0 * s1 div q"
  shows "\<bar>max p 1 * y - s1 * x\<bar> < max x y"
proof -
  have mx: "x \<le> max x y" and my: "y \<le> max x y" by simp_all
  have q0: "0 < q" using q pos(4) by linarith
  have lo1: "q * x \<le> y * s0" and hi1: "y * s0 < (q + 1) * x"
    unfolding q_def using div_bounds[OF pos(1)] by simp_all
  have lo2: "p * q \<le> s0 * s1" and hi2: "s0 * s1 < (p + 1) * q"
    unfolding p_def using div_bounds[OF q0] by simp_all
  have p0: "0 \<le> p" unfolding p_def using pos q0 by (simp add: pos_imp_zdiv_nonneg_iff)
  show ?thesis
  proof (cases "1 \<le> p")
    case False
    with p0 have pz: "p = 0" by linarith
    from hi2 pz have "s0 * s1 < q" by simp
    then have "s0 * s1 * x < q * x" using pos(1) by (simp add: mult_less_cancel_right)
    also note lo1
    finally have "s0 * (s1 * x) < s0 * y" by (simp add: mult.commute mult.left_commute)
    then have a: "s1 * x < y" using pos(3) by (simp add: mult_less_cancel_left)
    have b: "0 < s1 * x" using pos by simp
    have "\<bar>max p 1 * y - s1 * x\<bar> = y - s1 * x" unfolding pz using a by simp
    with b my show ?thesis by linarith
  next
    case True
    then have xp: "max p 1 = p" by simp
    have "p * q * y \<le> s0 * s1 * y" using lo2 pos(2) by (simp add: mult_le_cancel_right)
    also have "s0 * s1 * y = s1 * (y * s0)" by (simp add: mult.commute mult.left_commute)
    also have "s1 * (y * s0) < s1 * ((q + 1) * x)"
      using hi1 pos(4) by (simp add: mult_less_cancel_left)
    also have "s1 * ((q + 1) * x) = q * (s1 * x) + s1 * x" by (simp add: algebra_simps)
    also have "\<dots> < q * (s1 * x) + q * x"
      using q pos(1) by (simp add: mult_less_cancel_right)
    also have "\<dots> = q * (s1 * x + x)" by (simp add: algebra_simps)
    finally have "q * (p * y) < q * (s1 * x + x)" by (simp add: mult.commute mult.left_commute)
    then have up: "p * y < s1 * x + x" using q0 by (simp add: mult_less_cancel_left)
    have "s0 * s1 * x < (p + 1) * q * x" using hi2 pos(1) by (simp add: mult_less_cancel_right)
    also have "(p + 1) * q * x = (p + 1) * (q * x)" by simp
    also have "\<dots> \<le> (p + 1) * (y * s0)"
      using lo1 True by (simp add: mult_le_cancel_left)
    finally have "s0 * (s1 * x) < s0 * ((p + 1) * y)"
      by (simp add: mult.commute mult.left_commute)
    then have "s1 * x < (p + 1) * y" using pos(3) by (simp add: mult_less_cancel_left)
    then have lo: "s1 * x < p * y + y" by (simp add: algebra_simps)
    from up lo mx my show ?thesis unfolding xp by linarith
  qed
qed

lemma two_steps_nearest:
  fixes x y s0 s1 :: int
  assumes pos: "0 < x" "0 < y" "0 < s0" "0 < s1" and big: "s0 < x"
  defines "q \<equiv> round_half_even (y * s0) x"
  assumes q: "s1 < q"
  defines "p \<equiv> round_half_even (s0 * s1) q"
  shows "\<bar>max p 1 * y - s1 * x\<bar> < max x y"
proof -
  have mx: "x \<le> max x y" and my: "y \<le> max x y" by simp_all
  have q0: "0 < q" using q pos(4) by linarith
  have a1: "2 * (q * x) \<le> 2 * (y * s0) + x" and a2: "2 * (y * s0) \<le> 2 * (q * x) + x"
    unfolding q_def using round_half_even_bounds[OF pos(1)] by simp_all
  have b1: "2 * (p * q) \<le> 2 * (s0 * s1) + q" and b2: "2 * (s0 * s1) \<le> 2 * (p * q) + q"
    unfolding p_def using round_half_even_bounds[OF q0] by simp_all
  have "0 \<le> s0 * s1" using pos by simp
  from rounded_common(1)[OF q0 this, of Nearest] have p0: "0 \<le> p" unfolding p_def by simp
  have s1x: "0 < s1 * x" using pos by simp
  show ?thesis
  proof (cases "1 \<le> p")
    case False
    with p0 have pz: "p = 0" by linarith
    from b2 pz have c: "2 * (s0 * s1) \<le> q" by simp
    then have "2 * (s0 * s1) * x \<le> q * x" using pos(1) by (simp add: mult_le_cancel_right)
    then have "4 * (s0 * s1 * x) \<le> 2 * (q * x)" by simp
    also note a1
    also have "2 * (y * s0) + x \<le> 2 * (y * s0) + s0 * x" using pos(1,3) by simp
    finally have "s0 * (4 * (s1 * x)) \<le> s0 * (2 * y + x)" by (simp add: algebra_simps)
    then have d: "4 * (s1 * x) \<le> 2 * y + x" using pos(3) by (simp add: mult_le_cancel_left)
    have "max p 1 * y - s1 * x = y - s1 * x" unfolding pz by simp
    with d s1x pos mx my show ?thesis by linarith
  next
    case True
    then have xp: "max p 1 = p" by simp
    \<comment> \<open>\<open>s0 * q * (p * y - s1 * x) = (y * s0) * (p * q - s0 * s1) + (s0 * s1) * (y * s0 - q * x)\<close>\<close>
    have id: "2 * (s0 * q * (p * y - s1 * x)) =
        (y * s0) * (2 * (p * q) - 2 * (s0 * s1)) + (s0 * s1) * (2 * (y * s0) - 2 * (q * x))"
      by (simp add: algebra_simps)
    have A: "0 < y * s0" and C: "0 < s0 * s1" using pos by simp_all
    have t1u: "(y * s0) * (2 * (p * q) - 2 * (s0 * s1)) \<le> (y * s0) * q"
    proof -
      have "2 * (p * q) - 2 * (s0 * s1) \<le> q" using b1 by linarith
      then show ?thesis using A by (intro mult_left_mono) simp_all
    qed
    have t1l: "- ((y * s0) * q) \<le> (y * s0) * (2 * (p * q) - 2 * (s0 * s1))"
    proof -
      have "- q \<le> 2 * (p * q) - 2 * (s0 * s1)" using b2 by linarith
      then have "(y * s0) * (- q) \<le> (y * s0) * (2 * (p * q) - 2 * (s0 * s1))"
        using A by (intro mult_left_mono) simp_all
      then show ?thesis by (simp only: mult_minus_right)
    qed
    have t2u: "(s0 * s1) * (2 * (y * s0) - 2 * (q * x)) \<le> (s0 * s1) * x"
    proof -
      have "2 * (y * s0) - 2 * (q * x) \<le> x" using a2 by linarith
      then show ?thesis using C by (intro mult_left_mono) simp_all
    qed
    have t2l: "- ((s0 * s1) * x) \<le> (s0 * s1) * (2 * (y * s0) - 2 * (q * x))"
    proof -
      have "- x \<le> 2 * (y * s0) - 2 * (q * x)" using a1 by linarith
      then have "(s0 * s1) * (- x) \<le> (s0 * s1) * (2 * (y * s0) - 2 * (q * x))"
        using C by (intro mult_left_mono) simp_all
      then show ?thesis by (simp only: mult_minus_right)
    qed
    have cx: "(s0 * s1) * x < (s0 * q) * x"
      using q pos(1,3) by (simp add: mult_less_cancel_right mult_less_cancel_left)
    have e1: "(y * s0) * q = (s0 * q) * y" by (simp add: mult.commute mult.left_commute)
    from id t1u t2u cx e1 have
      "2 * (s0 * q * (p * y - s1 * x)) < (s0 * q) * y + (s0 * q) * x" by linarith
    then have "(s0 * q) * (2 * (p * y - s1 * x)) < (s0 * q) * (y + x)"
      by (simp add: algebra_simps)
    moreover have sq: "0 < s0 * q" using pos(3) q0 by simp
    ultimately have up: "2 * (p * y - s1 * x) < y + x" by (simp add: mult_less_cancel_left)
    from id t1l t2l cx e1 have
      "- ((s0 * q) * y + (s0 * q) * x) < 2 * (s0 * q * (p * y - s1 * x))" by linarith
    then have "(s0 * q) * (- (y + x)) < (s0 * q) * (2 * (p * y - s1 * x))"
      by (simp add: algebra_simps)
    with sq have lo: "- (y + x) < 2 * (p * y - s1 * x)" by (simp add: mult_less_cancel_left)
    define d where "d = p * y - s1 * x"
    define M where "M = max x y"
    have "2 * d < y + x" "- (y + x) < 2 * d" "x \<le> M" "y \<le> M"
      using up lo mx my unfolding d_def M_def by simp_all
    then have "\<bar>d\<bar> < M" by linarith
    then show ?thesis unfolding xp d_def M_def .
  qed
qed

lemma two_steps:
  fixes x y s0 s1 :: int
  assumes "0 < x" "0 < y" "0 < s0" "0 < s1" and "s0 < x"
    and "s1 < rounded rd (y * s0) x"
  shows "\<bar>max (rounded rd (s0 * s1) (rounded rd (y * s0) x)) 1 * y - s1 * x\<bar> < max x y"
proof (cases rd)
  case Truncate
  with assms(6) have "s1 < y * s0 div x" by simp
  from two_steps_truncate[OF assms(1-5) this] Truncate show ?thesis by simp
next
  case Nearest
  with assms(6) have "s1 < round_half_even (y * s0) x" by simp
  from two_steps_nearest[OF assms(1-5) this] Nearest show ?thesis by simp
qed

text \<open>
  For positive sides and either rounding: the computed size is at least 1 by 1, within the
  target, not larger than the image, and the cross products of the two aspect ratios
  differ by less than the longer side of the image.
\<close>

lemma thumbnail_size_props:
  fixes x y s0 s1 x' y' :: int
  assumes pos: "0 < x" "0 < y" "0 < s0" "0 < s1"
    and ts: "thumbnail_size rd (x, y) (s0, s1) = (x', y')"
  shows "1 \<le> x' \<and> x' \<le> s0 \<and> 1 \<le> y' \<and> y' \<le> s1 \<and> x' \<le> x \<and> y' \<le> y \<and>
         \<bar>x' * y - y' * x\<bar> < max x y"
proof -
  have mx: "x \<le> max x y" and my: "y \<le> max x y" by simp_all
  show ?thesis
  proof (cases "s0 < x")
    case False
    note nx = this
    show ?thesis
    proof (cases "s1 < y")
      case False
      with nx have "thumbnail_size rd (x, y) (s0, s1) = (x, y)" by (simp add: thumbnail_size_def)
      from ts[unfolded this] have r: "x' = x" "y' = y" by auto
      have c1: "1 \<le> x'" and c2: "x' \<le> s0" and c3: "1 \<le> y'" and c4: "y' \<le> s1"
        and c5: "x' \<le> x" and c6: "y' \<le> y"
        unfolding r using nx False pos by linarith+
      have "\<bar>x' * y - y' * x\<bar> = 0" unfolding r by (simp add: mult.commute)
      then have c7: "\<bar>x' * y - y' * x\<bar> < max x y" using pos(1) mx by linarith
      from c1 c2 c3 c4 c5 c6 c7 show ?thesis by blast
    next
      case True
      define k where "k = rounded rd (x * s1) y"
      from nx True have "thumbnail_size rd (x, y) (s0, s1) = (max k 1, s1)"
        by (simp add: thumbnail_size_def k_def)
      from ts[unfolded this] have r: "x' = max k 1" "y' = s1" by auto
      note st = shrink_step[OF pos(1) pos(4) True, where rd = rd, folded k_def]
      have c5: "x' \<le> x" unfolding r using st(2) pos(1) by simp
      have c1: "1 \<le> x'" unfolding r by simp
      have c2: "x' \<le> s0" using c5 nx by linarith
      have c3: "1 \<le> y'" and c4: "y' \<le> s1" and c6: "y' \<le> y"
        unfolding r using pos True by linarith+
      have "\<bar>s1 * x - max k 1 * y\<bar> < y" by (rule st(3))
      then have "\<bar>x' * y - y' * x\<bar> < y" unfolding r by (simp add: abs_minus_commute)
      then have c7: "\<bar>x' * y - y' * x\<bar> < max x y" using my by linarith
      from c1 c2 c3 c4 c5 c6 c7 show ?thesis by blast
    qed
  next
    case True
    define q where "q = rounded rd (y * s0) x"
    note st = shrink_step[OF pos(2) pos(3) True, where rd = rd, folded q_def]
    show ?thesis
    proof (cases "s1 < max q 1")
      case False
      with True have "thumbnail_size rd (x, y) (s0, s1) = (s0, max q 1)"
        by (simp add: thumbnail_size_def q_def)
      from ts[unfolded this] have r: "x' = s0" "y' = max q 1" by auto
      have c6: "y' \<le> y" unfolding r using st(2) pos(2) by simp
      have c3: "1 \<le> y'" unfolding r by simp
      have c4: "y' \<le> s1" unfolding r using False by linarith
      have c1: "1 \<le> x'" and c2: "x' \<le> s0" and c5: "x' \<le> x"
        unfolding r using pos True by linarith+
      have "\<bar>x' * y - y' * x\<bar> < x" unfolding r by (rule st(3))
      then have c7: "\<bar>x' * y - y' * x\<bar> < max x y" using mx by linarith
      from c1 c2 c3 c4 c5 c6 c7 show ?thesis by blast
    next
      case big: True
      then have q2: "s1 < q" "1 \<le> q" "max q 1 = q" using pos(4) by simp_all
      define p where "p = rounded rd (s0 * s1) q"
      from True big have "thumbnail_size rd (x, y) (s0, s1) = (max (rounded rd (s0 * s1) (max q 1)) 1, s1)"
        by (simp add: thumbnail_size_def q_def)
      from ts[unfolded this] have r: "x' = max p 1" "y' = s1"
        unfolding p_def q2(3) by auto
      note st2 = shrink_step[OF pos(3) pos(4) q2(1), where rd = rd, folded p_def]
      have c1: "1 \<le> x'" unfolding r by simp
      have c2: "x' \<le> s0" unfolding r using st2(2) pos(3) by simp
      have c3: "1 \<le> y'" and c4: "y' \<le> s1" unfolding r using pos by linarith+
      have c6: "y' \<le> y" unfolding r using q2(1) st(2) by linarith
      have c5: "x' \<le> x" using c2 True by linarith
      have c7: "\<bar>x' * y - y' * x\<bar> < max x y"
        unfolding r p_def q_def
        by (rule two_steps[OF pos True q2(1)[unfolded q_def]])
      from c1 c2 c3 c4 c5 c6 c7 show ?thesis by blast
    qed
  qed
qed

section \<open>The thumbnailer and the padder on well-formed sizes\<close>

text \<open>
  A well-formed size is a pair of positive integers, both native or both numpy scalars
  (the two entries come from one shape array).
\<close>

lemma native_size_ok:
  assumes "(w, h) = (PyInt s0, PyInt s1) \<or> (w, h) = (NpInt s0, NpInt s1)"
  shows "native_size (w, h) = Inr (PyInt s0, PyInt s1)"
  using assms by (auto simp: native_size_def)

lemma pil_thumbnail_ok:
  assumes "0 < s0" and "0 < s1" and "0 < width im" and "0 < height im"
  shows "\<exists>im'. pil_thumbnail B im (PyInt s0, PyInt s1) = Inr im' \<and>
           (int (width im'), int (height im')) =
              thumbnail_size (rounds B) (int (width im), int (height im)) (s0, s1)"
proof -
  obtain x y where xy: "thumbnail_size (rounds B) (int (width im), int (height im)) (s0, s1) = (x, y)"
    by (cases "thumbnail_size (rounds B) (int (width im), int (height im)) (s0, s1)") auto
  have p: "0 < int (width im)" "0 < int (height im)" using assms(3,4) by simp_all
  from thumbnail_size_props[OF p assms(1,2) xy] have b: "1 \<le> x" "1 \<le> y" by simp_all
  show ?thesis
  proof (cases "(x, y) = (int (width im), int (height im))")
    case True
    with assms xy show ?thesis by (simp add: pil_thumbnail_def)
  next
    case False
    with assms xy b show ?thesis by (simp add: pil_thumbnail_def)
  qed
qed

lemma thumbnail_ok:
  assumes "(w, h) = (PyInt s0, PyInt s1) \<or> (w, h) = (NpInt s0, NpInt s1)"
    and "0 < s0" and "0 < s1"
    and "0 < width (objs st r)" and "0 < height (objs st r)"
  shows "\<exists>im'. thumbnail B st (Some r) (Some (w, h)) =
             Inr (st\<lparr>objs := (objs st)(fresh st := im'), fresh := Suc (fresh st)\<rparr>, fresh st) \<and>
           (int (width im'), int (height im')) =
              thumbnail_size (rounds B) (int (width (objs st r)), int (height (objs st r))) (s0, s1)"
proof -
  from pil_thumbnail_ok[OF assms(2,3,4,5), where B = B] obtain im' where
    im: "pil_thumbnail B (objs st r) (PyInt s0, PyInt s1) = Inr im'"
        "(int (width im'), int (height im')) =
              thumbnail_size (rounds B) (int (width (objs st r)), int (height (objs st r))) (s0, s1)"
    by blast
  have "thumbnail B st (Some r) (Some (w, h)) =
          Inr (st\<lparr>objs := (objs st)(fresh st := im'), fresh := Suc (fresh st)\<rparr>, fresh st)"
    using native_size_ok[OF assms(1)] im(1)
    by (simp add: thumbnail_def copy_image_def alloc_def)
  with im(2) show ?thesis by blast
qed

lemma resize_ok:
  assumes "int_val d0 = Some s0" and "int_val d1 = Some s1"
    and "int (width (objs st r)) \<le> s0" and "int (height (objs st r)) \<le> s1"
  shows "resize st (Some r) (Some (d0, d1)) =
           Inr (st\<lparr>objs := (objs st)
                    (fresh st := objs st r,
                     Suc (fresh st) :=
                       \<lparr>width = nat s0, height = nat s1,
                        pix = (\<lambda>x y. if x < width (objs st r) \<and> y < height (objs st r)
                                      then pix (objs st r) x y else black)\<rparr>),
                   fresh := Suc (Suc (fresh st))\<rparr>,
                Suc (fresh st))"
proof -
  have e: "expand (objs st r) (0, 0, s0 - int (width (objs st r)), s1 - int (height (objs st r))) =
      Inr \<lparr>width = nat s0, height = nat s1,
            pix = (\<lambda>x y. if x < width (objs st r) \<and> y < height (objs st r)
                          then pix (objs st r) x y else black)\<rparr>"
    using assms(3,4) by (simp add: expand_def cong: if_cong)
  have s: "0 \<le> s0" "0 \<le> s1" using assms(3,4) by linarith+
  show ?thesis using assms(1,2) e s
    by (simp add: resize_def copy_image_def alloc_def)
qed

lemma detect_geometry_ok:
  assumes sh: "input_shape tfe = (n, h, w, c)"
    and wf: "(w, h) = (PyInt s0, PyInt s1) \<or> (w, h) = (NpInt s0, NpInt s1)"
    and pos: "0 < s0" "0 < s1" "0 < width (objs st r)" "0 < height (objs st r)"
  shows "\<exists>st' t p. detect_geometry B tfe st (Some r) =
             Inr (st', t, p, real (width (objs st' t)) / real (width (objs st' p)),
                            real (height (objs st' t)) / real (height (objs st' p))) \<and>
           (int (width (objs st' t)), int (height (objs st' t))) =
              thumbnail_size (rounds B) (int (width (objs st r)), int (height (objs st r))) (s0, s1) \<and>
           int (width (objs st' p)) = s0 \<and> int (height (objs st' p)) = s1 \<and>
           fresh st \<le> t \<and> fresh st \<le> p \<and> (\<forall>q<fresh st. objs st' q = objs st q)"
proof -
  from thumbnail_ok[OF wf pos, where B = B] obtain im' where
    th: "thumbnail B st (Some r) (Some (w, h)) =
             Inr (st\<lparr>objs := (objs st)(fresh st := im'), fresh := Suc (fresh st)\<rparr>, fresh st)"
    and sz: "(int (width im'), int (height im')) =
              thumbnail_size (rounds B) (int (width (objs st r)), int (height (objs st r))) (s0, s1)"
    by blast
  let ?st1 = "st\<lparr>objs := (objs st)(fresh st := im'), fresh := Suc (fresh st)\<rparr>"
  have p: "0 < int (width (objs st r))" "0 < int (height (objs st r))" using pos(3,4) by simp_all
  from thumbnail_size_props[OF p pos(1,2) sz[symmetric]]
  have b: "1 \<le> int (width im')" "int (width im') \<le> s0"
          "1 \<le> int (height im')" "int (height im') \<le> s1" by simp_all
  have iv: "int_val w = Some s0" "int_val h = Some s1" using wf by auto
  have o1: "objs ?st1 (fresh st) = im'" by simp
  have le: "int (width (objs ?st1 (fresh st))) \<le> s0" "int (height (objs ?st1 (fresh st))) \<le> s1"
    using b by simp_all
  note rs = resize_ok[OF iv le]
  let ?pad = "\<lparr>width = nat s0, height = nat s1,
                pix = (\<lambda>x y. if x < width im' \<and> y < height im' then pix im' x y else black)\<rparr>"
  let ?st2 = "st\<lparr>objs := (objs st)(fresh st := im', Suc (fresh st) := im', Suc (Suc (fresh st)) := ?pad),
                  fresh := Suc (Suc (Suc (fresh st)))\<rparr>"
  have rs': "resize ?st1 (Some (fresh st)) (Some (w, h)) = Inr (?st2, Suc (Suc (fresh st)))"
    using rs by (simp cong: if_cong)
  have sf: "scale_factors (objs ?st2 (fresh st)) (objs ?st2 (Suc (Suc (fresh st)))) =
      Inr (real (width (objs ?st2 (fresh st))) / real (width (objs ?st2 (Suc (Suc (fresh st))))),
           real (height (objs ?st2 (fresh st))) / real (height (objs ?st2 (Suc (Suc (fresh st))))))"
    using pos(1,2) by (simp add: scale_factors_def)
  have dg: "detect_geometry B tfe st (Some r) =
      Inr (?st2, fresh st, Suc (Suc (fresh st)),
           real (width (objs ?st2 (fresh st))) / real (width (objs ?st2 (Suc (Suc (fresh st))))),
           real (height (objs ?st2 (fresh st))) / real (height (objs ?st2 (Suc (Suc (fresh st))))))"
    unfolding detect_geometry_def using sh th rs' sf by simp
  define st2 where "st2 = ?st2"
  define t where "t = fresh st"
  define p where "p = Suc (Suc (fresh st))"
  have c1: "detect_geometry B tfe st (Some r) =
      Inr (st2, t, p, real (width (objs st2 t)) / real (width (objs st2 p)),
                     real (height (objs st2 t)) / real (height (objs st2 p)))"
    unfolding st2_def t_def p_def by (rule dg)
  have ot: "objs st2 t = im'" unfolding st2_def t_def by simp
  have op: "objs st2 p = ?pad" unfolding st2_def p_def by simp
  have c2: "(int (width (objs st2 t)), int (height (objs st2 t))) =
              thumbnail_size (rounds B) (int (width (objs st r)), int (height (objs st r))) (s0, s1)"
    unfolding ot by (rule sz)
  have c3: "int (width (objs st2 p)) = s0" unfolding op using pos(1) by simp
  have c4: "int (height (objs st2 p)) = s1" unfolding op using pos(2) by simp
  have c5: "fresh st \<le> t" unfolding t_def by simp
  have c6: "fresh st \<le> p" unfolding p_def by simp
  have c7: "\<forall>q<fresh st. objs st2 q = objs st q" unfolding st2_def by simp
  from c1 c2 c3 c4 c5 c6 c7 show ?thesis by blast
qed

text \<open>The loop returns nothing new when no index passes both tests.\<close>

lemma rank_loop_none:
  "\<forall>i\<in>set is. i < length (scores out) \<and>
      (thr \<le> scores out ! i \<longrightarrow>
         i < length (label_codes out) \<and> int (length L) \<le> py_int (label_codes out ! i)) \<Longrightarrow>
   rank_loop L thr wfac hfac out is acc = Inr acc"
  by (induction "is" arbitrary: acc) (auto simp: Let_def)

lemma rank_none:
  assumes "length (scores out) \<le> length (label_codes out)"
    and "py_int (num out) = 0 \<or>
         (\<forall>i\<in>set (top_k_indices (scores out) (py_int (num out)) k).
            scores out ! i < thr \<or> int (length L) \<le> py_int (label_codes out ! i))"
  shows "rank L thr k wfac hfac out = Inr []"
proof -
  let ?is = "top_k_indices (scores out) (py_int (num out)) k"
  have "\<forall>i\<in>set ?is. i < length (scores out) \<and>
      (thr \<le> scores out ! i \<longrightarrow>
         i < length (label_codes out) \<and> int (length L) \<le> py_int (label_codes out ! i))"
  proof
    fix i assume i: "i \<in> set ?is"
    then have lt: "i < length (scores out)" by (rule top_k_indices_lt)
    from i have "i < length (slice_to (scores out) (py_int (num out)))"
      by (rule top_k_indices_bound)
    then have nz: "py_int (num out) \<noteq> 0" by (auto simp: slice_to_def)
    with assms(2) i have "scores out ! i < thr \<or> int (length L) \<le> py_int (label_codes out ! i)"
      by blast
    with lt assms(1) show "i < length (scores out) \<and>
      (thr \<le> scores out ! i \<longrightarrow>
         i < length (label_codes out) \<and> int (length L) \<le> py_int (label_codes out ! i))"
      by auto
  qed
  from rank_loop_none[OF this] show ?thesis unfolding rank_def by (simp only: Let_def)
qed

text \<open>What the conversion of \<^verbatim>\<open>thumbnail\<close> does when the width is a numpy scalar, and
  how every failure of the \<^verbatim>\<open>try\<close> block reaches the caller.\<close>

lemma native_size_np:
  assumes "is_np_generic w" and "is_np_generic h"
  shows "\<exists>a b. native_size (w, h) = Inr (PyInt a, PyInt b)"
  using assms by (cases w; cases h) (simp_all add: native_size_def)

lemma thumbnail_np_width_native_height:
  assumes "is_np_generic w" and "\<not> is_np_generic h"
  shows "thumbnail B st (Some r) (Some (w, h)) =
           Inl (RuntimeError (w, h) TInt (type_of h) AttributeError)"
  using assms by (cases w; cases h) (simp_all add: thumbnail_def native_size_def copy_image_def alloc_def)

lemma thumbnail_error:
  assumes "thumbnail B st (Some r) (Some (w, h)) = Inl e"
  shows "\<exists>tw th e'. e = RuntimeError (w, h) tw th e'"
  using assms unfolding thumbnail_def copy_image_def alloc_def
  by (auto split: sum.splits prod.splits)

section \<open>Claims about the thumbnailer, the padder and the pipeline\<close>

lemmas store_defs =
  thumbnail_def copy_image_def alloc_def native_size_def sample_store_def sample_image_def
  pil_thumbnail_def thumbnail_size_def round_half_even_def sample_backend_def resize_def expand_def
  scale_factors_def detect_geometry_def sample_engine_def

text \<open>
  C4. For every image with positive sides, held at a reference \<open>r\<close> in use, and every
  well-formed target size, the thumbnailer returns a new image (a reference that was
  not in use) whose width and height are at most the target's, at most the input's (no
  upscaling) and at least 1; its aspect ratio is the input's up to rounding: the cross
  products \<open>width' * height\<close> and \<open>height' * width\<close> differ by less than the longer
  side of the input, that is, the shorter side of the thumbnail is within one pixel of
  the exactly proportional value. No image that was in the store is changed, the input
  in particular. The sizes are those of the imaging library's size rule as modelled by
  \<open>thumbnail_size\<close>, with either rounding.
\<close>

theorem thumbnail_fits:
  assumes "(w, h) = (PyInt s0, PyInt s1) \<or> (w, h) = (NpInt s0, NpInt s1)"
    and "0 < s0" and "0 < s1"
    and "0 < width (objs st r)" and "0 < height (objs st r)"
    and "r < fresh st"
  shows "\<exists>st' t. thumbnail B st (Some r) (Some (w, h)) = Inr (st', t) \<and>
           t \<noteq> r \<and> fresh st \<le> t \<and>
           objs st' r = objs st r \<and> (\<forall>q<fresh st. objs st' q = objs st q) \<and>
           int (width (objs st' t)) \<le> s0 \<and> int (height (objs st' t)) \<le> s1 \<and>
           width (objs st' t) \<le> width (objs st r) \<and>
           height (objs st' t) \<le> height (objs st r) \<and>
           0 < width (objs st' t) \<and> 0 < height (objs st' t) \<and>
           \<bar>int (width (objs st' t)) * int (height (objs st r)) -
             int (height (objs st' t)) * int (width (objs st r))\<bar>
             < max (int (width (objs st r))) (int (height (objs st r)))"
proof -
  from thumbnail_ok[OF assms(1,2,3,4,5), where B = B] obtain im' where
    th: "thumbnail B st (Some r) (Some (w, h)) =
             Inr (st\<lparr>objs := (objs st)(fresh st := im'), fresh := Suc (fresh st)\<rparr>, fresh st)"
    and sz: "(int (width im'), int (height im')) =
              thumbnail_size (rounds B) (int (width (objs st r)), int (height (objs st r))) (s0, s1)"
    by blast
  define st' where "st' = st\<lparr>objs := (objs st)(fresh st := im'), fresh := Suc (fresh st)\<rparr>"
  define t where "t = fresh st"
  have p: "0 < int (width (objs st r))" "0 < int (height (objs st r))"
    using assms(4,5) by simp_all
  note pr = thumbnail_size_props[OF p assms(2,3) sz[symmetric]]
  have ot: "objs st' t = im'" unfolding st'_def t_def by simp
  have c1: "thumbnail B st (Some r) (Some (w, h)) = Inr (st', t)"
    unfolding st'_def t_def by (rule th)
  have c2: "t \<noteq> r" "fresh st \<le> t" unfolding t_def using assms(6) by simp_all
  have c3: "\<forall>q<fresh st. objs st' q = objs st q" unfolding st'_def by simp
  with assms(6) have c4: "objs st' r = objs st r" by blast
  have c5: "int (width (objs st' t)) \<le> s0" "int (height (objs st' t)) \<le> s1"
    unfolding ot using pr by simp_all
  have c6: "width (objs st' t) \<le> width (objs st r)" "height (objs st' t) \<le> height (objs st r)"
    "0 < width (objs st' t)" "0 < height (objs st' t)"
    unfolding ot using pr by linarith+
  have c7: "\<bar>int (width (objs st' t)) * int (height (objs st r)) -
             int (height (objs st' t)) * int (width (objs st r))\<bar>
             < max (int (width (objs st r))) (int (height (objs st r)))"
    unfolding ot using pr by blast
  from c1 c2 c3 c4 c5 c6 c7 show ?thesis by blast
qed

theorem thumbnail_fits_witness:
  "((NpInt 300, NpInt 300) = (PyInt 300, PyInt 300) \<or>
    (NpInt 300, NpInt 300) = (NpInt 300, NpInt 300)) \<and>
   (0 :: int) < 300 \<and> 0 < width (objs sample_store 0) \<and> 0 < height (objs sample_store 0) \<and>
   0 < fresh sample_store \<and>
   (\<exists>st' t. thumbnail sample_backend sample_store (Some 0) (Some (NpInt 300, NpInt 300)) =
        Inr (st', t) \<and> t = 1 \<and> width (objs st' t) = 300 \<and> height (objs st' t) = 200 \<and>
        objs st' 0 = objs sample_store 0)"
proof -
  have h1: "(NpInt 300, NpInt 300) = (PyInt 300, PyInt 300) \<or>
    (NpInt 300, NpInt 300) = (NpInt 300, NpInt 300)" by simp
  have h2: "(0 :: int) < 300" by simp
  have h4: "0 < width (objs sample_store 0)" and h5: "0 < height (objs sample_store 0)"
    and h6: "0 < fresh sample_store"
    by (simp_all add: sample_store_def sample_image_def)
  have ev: "\<exists>st'. thumbnail sample_backend sample_store (Some 0) (Some (NpInt 300, NpInt 300)) =
      Inr (st', 1) \<and> width (objs st' 1) = 300 \<and> height (objs st' 1) = 200"
    by (simp add: store_defs)
  show ?thesis
    using h1 h2 h4 h5 h6 ev thumbnail_fits[OF h1 h2 h2 h4 h5 h6, where B = sample_backend]
    by auto
qed

text \<open>
  C5. For every thumbnail whose sides are at most the target's (the target a pair of
  integers, native or numpy), the padder returns a new image of exactly the target size,
  whose samples are the thumbnail's in the top-left region of the thumbnail's size and
  black everywhere else, to the right and below; no image that was in the store is
  changed.
\<close>

theorem resize_pads:
  assumes "int_val d0 = Some s0" and "int_val d1 = Some s1"
    and "int (width (objs st r)) \<le> s0" and "int (height (objs st r)) \<le> s1"
  shows "\<exists>st' p. resize st (Some r) (Some (d0, d1)) = Inr (st', p) \<and>
           fresh st \<le> p \<and> (\<forall>q<fresh st. objs st' q = objs st q) \<and>
           int (width (objs st' p)) = s0 \<and> int (height (objs st' p)) = s1 \<and>
           (\<forall>x y. x < width (objs st r) \<and> y < height (objs st r) \<longrightarrow>
              pix (objs st' p) x y = pix (objs st r) x y) \<and>
           (\<forall>x y. x < width (objs st' p) \<and> y < height (objs st' p) \<and>
                  \<not> (x < width (objs st r) \<and> y < height (objs st r)) \<longrightarrow>
              pix (objs st' p) x y = black)"
proof -
  let ?pad = "\<lparr>width = nat s0, height = nat s1,
                pix = (\<lambda>x y. if x < width (objs st r) \<and> y < height (objs st r)
                              then pix (objs st r) x y else black)\<rparr>"
  define st' where "st' = st\<lparr>objs := (objs st)(fresh st := objs st r, Suc (fresh st) := ?pad),
                   fresh := Suc (Suc (fresh st))\<rparr>"
  define p where "p = Suc (fresh st)"
  have c1: "resize st (Some r) (Some (d0, d1)) = Inr (st', p)"
    unfolding st'_def p_def by (rule resize_ok[OF assms])
  have op: "objs st' p = ?pad" unfolding st'_def p_def by simp
  have s: "0 \<le> s0" "0 \<le> s1" using assms(3,4) by linarith+
  have c2: "fresh st \<le> p" unfolding p_def by simp
  have c3: "\<forall>q<fresh st. objs st' q = objs st q" unfolding st'_def by simp
  have c4: "int (width (objs st' p)) = s0" "int (height (objs st' p)) = s1"
    unfolding op using s by simp_all
  have c5: "\<forall>x y. x < width (objs st r) \<and> y < height (objs st r) \<longrightarrow>
              pix (objs st' p) x y = pix (objs st r) x y"
    unfolding op by simp
  have c6: "\<forall>x y. x < width (objs st' p) \<and> y < height (objs st' p) \<and>
                  \<not> (x < width (objs st r) \<and> y < height (objs st r)) \<longrightarrow>
              pix (objs st' p) x y = black"
    unfolding op by simp
  from c1 c2 c3 c4 c5 c6 show ?thesis by blast
qed

theorem resize_pads_witness:
  "int_val (NpInt 640) = Some 640 \<and> int_val (NpInt 480) = Some 480 \<and>
   int (width (objs sample_store 0)) \<le> 640 \<and> int (height (objs sample_store 0)) \<le> 480 \<and>
   (\<exists>st' p. resize sample_store (Some 0) (Some (NpInt 640, NpInt 480)) = Inr (st', p) \<and>
      p = 2 \<and> width (objs st' p) = 640 \<and> height (objs st' p) = 480 \<and>
      pix (objs st' p) 5 7 = (5, 7, 7) \<and> pix (objs st' p) 620 7 = black \<and>
      pix (objs st' p) 5 450 = black)"
proof -
  have h1: "int_val (NpInt 640) = Some 640" and h2: "int_val (NpInt 480) = Some 480" by simp_all
  have h3: "int (width (objs sample_store 0)) \<le> 640"
    and h4: "int (height (objs sample_store 0)) \<le> 480"
    by (simp_all add: sample_store_def sample_image_def)
  have ev: "\<exists>st'. resize sample_store (Some 0) (Some (NpInt 640, NpInt 480)) = Inr (st', 2) \<and>
      width (objs st' 2) = 640 \<and> height (objs st' 2) = 480 \<and>
      pix (objs st' 2) 5 7 = (5, 7, 7) \<and> pix (objs st' 2) 620 7 = black \<and>
      pix (objs st' 2) 5 450 = black"
    by (simp add: store_defs)
  show ?thesis using h1 h2 h3 h4 ev resize_pads[OF h1 h2 h3 h4] by auto
qed

text \<open>
  C6. For every call of \<^verbatim>\<open>detect\<close> on an image with positive sides and an engine
  whose input shape is well-formed, the first half of \<^verbatim>\<open>detect\<close> returns; the padded
  image has the tensor's width and height; \<^verbatim>\<open>w_factor\<close> is the thumbnail's width
  over the padded width and \<^verbatim>\<open>h_factor\<close> the thumbnail's height over the padded
  height; and both factors are above 0 and at most 1.
\<close>

theorem scale_factors_unit_interval:
  assumes "input_shape tfe = (n, h, w, c)"
    and "(w, h) = (PyInt s0, PyInt s1) \<or> (w, h) = (NpInt s0, NpInt s1)"
    and "0 < s0" and "0 < s1"
    and "0 < width (objs st r)" and "0 < height (objs st r)"
  shows "\<exists>st' t p w_factor h_factor.
           detect_geometry B tfe st (Some r) = Inr (st', t, p, w_factor, h_factor) \<and>
           int (width (objs st' p)) = s0 \<and> int (height (objs st' p)) = s1 \<and>
           w_factor = real (width (objs st' t)) / real (width (objs st' p)) \<and>
           h_factor = real (height (objs st' t)) / real (height (objs st' p)) \<and>
           0 < w_factor \<and> w_factor \<le> 1 \<and> 0 < h_factor \<and> h_factor \<le> 1"
proof -
  from detect_geometry_ok[OF assms, where B = B] obtain st' t p where
    dg: "detect_geometry B tfe st (Some r) =
             Inr (st', t, p, real (width (objs st' t)) / real (width (objs st' p)),
                            real (height (objs st' t)) / real (height (objs st' p)))"
    and sz: "(int (width (objs st' t)), int (height (objs st' t))) =
              thumbnail_size (rounds B) (int (width (objs st r)), int (height (objs st r))) (s0, s1)"
    and pw: "int (width (objs st' p)) = s0" and ph: "int (height (objs st' p)) = s1"
    by blast
  have p: "0 < int (width (objs st r))" "0 < int (height (objs st r))"
    using assms(5,6) by simp_all
  note pr = thumbnail_size_props[OF p assms(3,4) sz[symmetric]]
  have tw: "0 < width (objs st' t)" "width (objs st' t) \<le> width (objs st' p)"
    using pr pw by linarith+
  have th: "0 < height (objs st' t)" "height (objs st' t) \<le> height (objs st' p)"
    using pr ph by linarith+
  have pp: "0 < width (objs st' p)" "0 < height (objs st' p)" using tw th by linarith+
  have f1: "0 < real (width (objs st' t)) / real (width (objs st' p))"
    using tw(1) pp(1) by simp
  have f2: "real (width (objs st' t)) / real (width (objs st' p)) \<le> 1"
    using tw(2) pp(1) by simp
  have f3: "0 < real (height (objs st' t)) / real (height (objs st' p))"
    using th(1) pp(2) by simp
  have f4: "real (height (objs st' t)) / real (height (objs st' p)) \<le> 1"
    using th(2) pp(2) by simp
  from dg pw ph f1 f2 f3 f4 show ?thesis by blast
qed

theorem scale_factors_unit_interval_witness:
  "input_shape (sample_engine 3 \<lparr>boxes = [], label_codes = [], scores = [], num = 0\<rparr>) =
     (NpInt 1, NpInt 300, NpInt 300, NpInt 3) \<and>
   ((NpInt 300, NpInt 300) = (PyInt 300, PyInt 300) \<or>
    (NpInt 300, NpInt 300) = (NpInt 300, NpInt 300)) \<and>
   (0 :: int) < 300 \<and> 0 < width (objs sample_store 0) \<and> 0 < height (objs sample_store 0) \<and>
   (\<exists>st' t p.
      detect_geometry sample_backend
        (sample_engine 3 \<lparr>boxes = [], label_codes = [], scores = [], num = 0\<rparr>)
        sample_store (Some 0) = Inr (st', t, p, 1, 2 / 3))"
proof -
  let ?e = "sample_engine 3 \<lparr>boxes = [], label_codes = [], scores = [], num = 0\<rparr>"
  have h0: "input_shape ?e = (NpInt 1, NpInt 300, NpInt 300, NpInt 3)"
    by (simp add: sample_engine_def)
  have h1: "(NpInt 300, NpInt 300) = (PyInt 300, PyInt 300) \<or>
    (NpInt 300, NpInt 300) = (NpInt 300, NpInt 300)" by simp
  have h2: "(0 :: int) < 300" by simp
  have h4: "0 < width (objs sample_store 0)" and h5: "0 < height (objs sample_store 0)"
    by (simp_all add: sample_store_def sample_image_def)
  have ev: "\<exists>st' t p. detect_geometry sample_backend ?e sample_store (Some 0) =
      Inr (st', t, p, 1, 2 / 3)"
    by (simp add: store_defs)
  show ?thesis
    using h0 h1 h2 h4 h5 ev scale_factors_unit_interval[OF h0 h1 h2 h2 h4 h5, where B = sample_backend]
    by simp
qed

text \<open>
  C8. The claim: when either dimension of the desired size arrives as a foreign numeric
  type, the thumbnailer makes both dimensions native integers before use, and a failure
  to convert reaches the caller as an error that carries the desired size and the type
  of the failing dimension. The conversion is guarded by
  \<^verbatim>\<open>isinstance(w, np.generic)\<close>, a test of the width alone. With a native width and
  a numpy height, \<open>(300, numpy 200)\<close>, nothing is converted: the pair handed to the
  library still has the numpy scalar, and the library is called with it (what it does
  then is the parameter \<open>foreign\<close>). With a numpy width and a native height,
  \<open>(numpy 300, 200)\<close>, the conversion itself fails on the height, which needed none:
  \<^verbatim>\<open>h.item()\<close> raises \<^verbatim>\<open>AttributeError\<close>, and the thumbnailer raises
  \<^verbatim>\<open>RuntimeError\<close>.
\<close>

theorem thumbnail_height_not_converted:
  "native_size (PyInt 300, NpInt 200) = Inr (PyInt 300, NpInt 200) \<and>
   thumbnail B sample_store (Some 0) (Some (PyInt 300, NpInt 200)) =
     (case foreign B sample_image (PyInt 300, NpInt 200) of
        Inl e \<Rightarrow> Inl (RuntimeError (PyInt 300, NpInt 200) TInt TNpInt e)
      | Inr im \<Rightarrow> Inr (sample_store\<lparr>objs := (objs sample_store)(1 := im), fresh := 2\<rparr>, 1)) \<and>
   thumbnail B sample_store (Some 0) (Some (NpInt 300, PyInt 200)) =
     Inl (RuntimeError (NpInt 300, PyInt 200) TInt TInt AttributeError)"
  by (simp add: native_size_def thumbnail_def copy_image_def alloc_def pil_thumbnail_def
      sample_store_def split: sum.splits)

text \<open>
  The geometry half of \<^verbatim>\<open>detect\<close> leaves the clock and \<^verbatim>\<open>last_time\<close> alone.
\<close>

lemma thumbnail_frame:
  assumes "thumbnail B st img ds = Inr (st', t)"
  shows "last_time st' = last_time st \<and> clock st' = clock st \<and> reads st' = reads st"
  using assms unfolding thumbnail_def copy_image_def alloc_def
  by (auto split: option.splits prod.splits sum.splits)

lemma resize_frame:
  assumes "resize st img ds = Inr (st', p)"
  shows "last_time st' = last_time st \<and> clock st' = clock st \<and> reads st' = reads st"
  using assms unfolding resize_def copy_image_def alloc_def
  by (auto simp: Let_def split: option.splits prod.splits sum.splits if_splits)

lemma detect_geometry_frame:
  assumes "detect_geometry B tfe st img = Inr (st', t, p, w_factor, h_factor)"
  shows "last_time st' = last_time st \<and> clock st' = clock st \<and> reads st' = reads st"
proof -
  from assms obtain r n h w c st1 th where
    a: "thumbnail B st (Some r) (Some (w, h)) = Inr (st1, th)"
    and b: "resize st1 (Some th) (Some (w, h)) = Inr (st', p)"
    unfolding detect_geometry_def
    by (auto split: option.splits prod.splits sum.splits)
  from thumbnail_frame[OF a] resize_frame[OF b] show ?thesis by simp
qed

text \<open>
  What does hold of a call with no candidate to report. Let the geometry half return,
  let the first clock reading not be zero and the second not be what \<^verbatim>\<open>last_time\<close>
  holds, and let the output tensors of this call have a label code for every score. If
  the detection count is zero, or every candidate among the best \<^verbatim>\<open>top_k\<close> is below
  the threshold or has a label code at or above the size of the label map (the one
  test the code makes before the lookup), then \<^verbatim>\<open>detect\<close> returns the thumbnail, the
  padded image and the empty list.
\<close>

lemma detect_no_candidate:
  assumes geo: "detect_geometry B tfe (snd (monotonic st)) (Some r) =
                  Inr (st2, t, p, w_factor, h_factor)"
    and c1: "clock st (reads st) \<noteq> 0"
    and c2: "clock st (Suc (reads st)) \<noteq> last_time st"
    and len: "length (scores (invoke tfe (objs st2 p))) \<le>
                length (label_codes (invoke tfe (objs st2 p)))"
    and none: "py_int (num (invoke tfe (objs st2 p))) = 0 \<or>
           (\<forall>i\<in>set (top_k_indices (scores (invoke tfe (objs st2 p)))
                       (py_int (num (invoke tfe (objs st2 p)))) (top_k tfe)).
              scores (invoke tfe (objs st2 p)) ! i < confidence_threshold tfe \<or>
              int (length L) \<le> py_int (label_codes (invoke tfe (objs st2 p)) ! i))"
  shows "\<exists>st'. detect B tfe L st (Some r) = Inr (st', t, p, []) \<and> objs st' = objs st2"
proof -
  define st0 where "st0 = st\<lparr>reads := Suc (reads st)\<rparr>"
  have m: "monotonic st = (clock st (reads st), st0)"
    by (simp add: monotonic_def st0_def)
  have geo0: "detect_geometry B tfe st0 (Some r) = Inr (st2, t, p, w_factor, h_factor)"
    using geo by (simp add: monotonic_def st0_def)
  from detect_geometry_frame[OF geo] have
    fr: "last_time st2 = last_time st" "clock st2 = clock st" "reads st2 = Suc (reads st)"
    by (simp_all add: monotonic_def)
  define st3 where "st3 = st2\<lparr>reads := Suc (reads st2), last_time := clock st2 (reads st2)\<rparr>"
  have ls: "log_stats st2 (clock st (reads st)) = Inr st3"
    using c1 c2 fr by (simp add: log_stats_def monotonic_def st3_def)
  have rk: "rank L (confidence_threshold tfe) (top_k tfe) w_factor h_factor
              (invoke tfe (objs st2 p)) = Inr []"
    by (rule rank_none[OF len none])
  have "detect B tfe L st (Some r) = Inr (st3, t, p, [])"
    unfolding detect_def using m geo0 ls rk by (simp add: Let_def)
  moreover have "objs st3 = objs st2" unfolding st3_def by simp
  ultimately show ?thesis by blast
qed

text \<open>
  C9. The claim: when the detection count is zero, or no candidate among the best
  \<^verbatim>\<open>top_k\<close> both clears the threshold and has an in-range label code, \<^verbatim>\<open>detect\<close>
  returns the thumbnail, the padded image and an empty list, without an error. The code
  looks a label up whenever \<^verbatim>\<open>li < len(self._labels)\<close>, which a code that is out of
  range can pass. With the label map \<open>{0: person}\<close> and one candidate above the
  threshold whose code is \<open>-1\<close>, no candidate has an in-range code, and \<^verbatim>\<open>detect\<close>
  raises \<^verbatim>\<open>KeyError\<close>. With the map \<open>{0: person, 2: car}\<close> and the code \<open>1\<close>, which
  is not a key, it raises as well. The defect is the one of C2.
\<close>

theorem detect_out_of_range_code_raises:
  "returned (detect sample_backend
     (sample_engine 3
        \<lparr>boxes = [(0, 0, 1, 1)], label_codes = [- 1], scores = [9 / 10], num = 1\<rparr>)
     [(0, ''person'')] sample_store (Some 0)) = Inl (KeyError (- 1))
   \<and>
   returned (detect sample_backend
     (sample_engine 3
        \<lparr>boxes = [(0, 0, 1, 1)], label_codes = [1], scores = [9 / 10], num = 1\<rparr>)
     [(0, ''person''), (2, ''car'')] sample_store (Some 0)) = Inl (KeyError 1)"
  by (simp add: sample_defs rank_defs ceiling_minus)

end
